theory Spec2Isabelle
  imports Main "HOL-Library.Sublist"
begin

section \<open>git-data.js: commits, diffs and test blocks of one author\<close>

text \<open>
  The script asks git for the commits of one author in a date window, for the files they
  touch and for their diffs, parses the test files with Babel, and counts the lines the
  author added and the test blocks whose line range holds a changed line.

  The source holds the script twice: a first copy (window June 2025) and a second copy (window
  July 2025) that adds configuration checks, diagnostics, fallback author matching and the
  trimming of file names. \<open>parseDiff\<close>, \<open>getTestCaseFiles\<close>,
  \<open>getTestCasesLineNumbersByFile\<close>, \<open>getUpdatedTestCases\<close> and
  \<open>getTotalLinesByAuthor\<close> are the same text in both. \<open>getCommits\<close> and
  \<open>getListOfFiles\<close> differ: the definitions of these names follow the second copy, and the
  first copy's versions are kept beside them under the suffix \<open>_first\<close>.

  Conventions of the model.
  \<^item> A JavaScript string is a list of its code units; the characters of the model are the code
    units below 256, which cover every character the script inspects.
  \<^item> The numbers that the script computes, the line numbers of \<open>parseDiff\<close> and the line
    counts of \<open>getTotalLinesByAuthor\<close>, are JavaScript's double-precision numbers: the type
    \<open>number\<close> below, with the rounding of \<open>parseInt\<close> and of \<open>+\<close>. The start and end
    lines of a test block, which come from Babel, and the line numbers that
    \<open>getUpdatedTestCases\<close> compares with them are only compared: they are natural numbers.
  \<^item> \<open>console.log\<close> and \<open>console.error\<close> are not modelled: nothing the
    functions return depends on them.
  \<^item> git, the file system, Babel and minimatch are outside the script. The shell with git
    behind it, the file system and Babel's parser and traversal are parameters of the model;
    what the script reads of a Babel node is a datatype; minimatch is modelled for the
    patterns of the script.
\<close>

subsection \<open>Strings\<close>

definition newline :: char where
  "newline = CHR 0x0A"

definition tab :: char where
  "tab = CHR 0x09"

definition backslash :: char where
  "backslash = CHR 0x5C"

text \<open>\<open>s.startsWith(p)\<close>.\<close>

definition startsWith :: "string \<Rightarrow> string \<Rightarrow> bool" where
  "startsWith s p = prefix p s"

text \<open>
  \<open>s.split(sep)\<close> for a separator of one character: the pieces between the separators, in
  order. The result is never empty: the empty string splits into one empty piece.
\<close>

fun split_on :: "char \<Rightarrow> string \<Rightarrow> string list" where
  "split_on sep [] = [[]]"
| "split_on sep (c # cs) =
     (if c = sep then [] # split_on sep cs
      else (case split_on sep cs of
              [] \<Rightarrow> [[c]]
            | piece # pieces \<Rightarrow> (c # piece) # pieces))"

text \<open>The character class \<open>[0-9]\<close>, which is also JavaScript's \<open>\d\<close>.\<close>

definition isDigit :: "char \<Rightarrow> bool" where
  "isDigit c = (c \<in> set ''0123456789'')"

definition digitValue :: "char \<Rightarrow> nat" where
  "digitValue c = of_char c - 48"

subsection \<open>Numbers\<close>

text \<open>
  The numbers of the script are never negative and never fractions: they start from 0 and from
  what \<open>parseInt\<close> reads, and they are added. Such a number is a double-precision value
  that is a natural number, \<open>Infinity\<close> or \<open>NaN\<close>.
\<close>

datatype number = Num nat | Infinity | NaN

text \<open>The length of \<open>n\<close> in binary digits.\<close>

fun bitLength :: "nat \<Rightarrow> nat" where
  "bitLength n = (if n = 0 then 0 else Suc (bitLength (n div 2)))"

declare bitLength.simps [simp del]

text \<open>
  The double nearest to the natural number \<open>n\<close>. Up to 53 binary digits are kept: a number
  below \<open>2^53\<close> is its own double; a longer number loses its last \<open>e\<close> binary digits
  and is rounded to the nearer multiple of \<open>2^e\<close>, to the one with the even quotient when
  it lies in the middle; a result of \<open>2^1024\<close> or more is \<open>Infinity\<close>.
\<close>

definition roundToDouble :: "nat \<Rightarrow> number" where
  "roundToDouble n =
     (if n < 2 ^ 53 then Num n
      else
        (let e = bitLength n - 53;
             q = n div 2 ^ e;
             r = n mod 2 ^ e;
             q' = (if 2 ^ e < 2 * r \<or> (2 * r = 2 ^ e \<and> odd q) then q + 1 else q)
         in if 2 ^ 1024 \<le> q' * 2 ^ e then Infinity else Num (q' * 2 ^ e)))"

text \<open>\<open>x + y\<close>: the double nearest to the sum.\<close>

fun js_add :: "number \<Rightarrow> number \<Rightarrow> number" where
  "js_add (Num a) (Num b) = roundToDouble (a + b)"
| "js_add NaN y = NaN"
| "js_add x NaN = NaN"
| "js_add Infinity y = Infinity"
| "js_add x Infinity = Infinity"

text \<open>The value that \<open>x++\<close> leaves in \<open>x\<close>.\<close>

definition increment :: "number \<Rightarrow> number" where
  "increment x = js_add x (Num 1)"

text \<open>The number that a string of decimal digits writes.\<close>

definition decimalValue :: "string \<Rightarrow> nat" where
  "decimalValue ds = foldl (\<lambda>n c. 10 * n + digitValue c) 0 ds"

text \<open>
  \<open>parseInt(s, 10)\<close> for a string that begins with neither white space nor a sign: the
  digits at the start of \<open>s\<close> are read, and the result is the double nearest to the number
  they write (ECMAScript lets an implementation read the digits after the twentieth as 0;
  Node reads them all); it is \<open>NaN\<close> when \<open>s\<close> begins with no digit. Both call sites
  pass a non-empty string of digits: group 1 of the hunk expression, and a field that passed
  \<open>/^\d+$/\<close>.
\<close>

definition parseInt :: "string \<Rightarrow> number" where
  "parseInt s =
     (if takeWhile isDigit s = [] then NaN
      else roundToDouble (decimalValue (takeWhile isDigit s)))"

subsection \<open>The hunk header expression\<close>

text \<open>
  \<open>/@@ -[0-9]+(?:,[0-9]+)? \+([0-9]+)(?:,([0-9]+))? @@/\<close>, read from left to right. Each
  run \<open>[0-9]+\<close> is followed in the expression by a character that is not a digit, so
  only the longest run of digits can lead to a match, and an optional \<open>,[0-9]+\<close> that can
  be taken must be taken (what follows it in the expression is a space, not a comma).
\<close>

text \<open>The literal \<open>p\<close> at the start of \<open>s\<close>: what is left of \<open>s\<close>.\<close>

definition literal :: "string \<Rightarrow> string \<Rightarrow> string option" where
  "literal p s = (if prefix p s then Some (drop (length p) s) else None)"

text \<open>\<open>[0-9]+\<close>: the digits read and what is left.\<close>

definition digits1 :: "string \<Rightarrow> (string \<times> string) option" where
  "digits1 s =
     (if takeWhile isDigit s = [] then None
      else Some (takeWhile isDigit s, dropWhile isDigit s))"

text \<open>\<open>(?:,[0-9]+)?\<close>: what is left.\<close>

definition optCount :: "string \<Rightarrow> string" where
  "optCount s =
     (case s of
        [] \<Rightarrow> s
      | c # r \<Rightarrow>
          (if c = CHR '','' then (case digits1 r of None \<Rightarrow> s | Some (n, r') \<Rightarrow> r')
           else s))"

text \<open>The expression matched at the start of \<open>s\<close>: its group 1.\<close>

definition matchHere :: "string \<Rightarrow> string option" where
  "matchHere s =
     (case literal ''@@ -'' s of
        None \<Rightarrow> None
      | Some r1 \<Rightarrow>
          (case digits1 r1 of
             None \<Rightarrow> None
           | Some (a, r2) \<Rightarrow>
               (case literal '' +'' (optCount r2) of
                  None \<Rightarrow> None
                | Some r3 \<Rightarrow>
                    (case digits1 r3 of
                       None \<Rightarrow> None
                     | Some (c, r4) \<Rightarrow>
                         (case literal '' @@'' (optCount r4) of
                            None \<Rightarrow> None
                          | Some r5 \<Rightarrow> Some c)))))"

text \<open>
  \<open>line.match(/.../)\<close>: the expression is not anchored, so the match is the leftmost one in
  the line; \<open>None\<close> is JavaScript's \<open>null\<close>.
\<close>

fun hunkMatch :: "string \<Rightarrow> string option" where
  "hunkMatch [] = matchHere []"
| "hunkMatch (c # cs) =
     (case matchHere (c # cs) of
        Some g \<Rightarrow> Some g
      | None \<Rightarrow> hunkMatch cs)"

subsection \<open>parseDiff\<close>

text \<open>
  The callback of \<open>lines.forEach\<close>. The state it updates is the pair of \<open>startLine\<close>
  and \<open>lineNumbers\<close>; \<open>lineNumbers.push(startLine++)\<close> appends the old value.
\<close>

definition parseDiff_line ::
  "string \<Rightarrow> number \<times> number list \<Rightarrow> number \<times> number list" where
  "parseDiff_line line st =
     (case st of (startLine, lineNumbers) \<Rightarrow>
        if startsWith line ''@@'' then
          (case hunkMatch line of
             Some m \<Rightarrow> (parseInt m, lineNumbers)
           | None \<Rightarrow> (startLine, lineNumbers))
        else if startsWith line ''+'' \<and> \<not> startsWith line ''+++'' then
          (increment startLine, lineNumbers @ [startLine])
        else if \<not> startsWith line [backslash] then
          (increment startLine, lineNumbers)
        else (startLine, lineNumbers))"

text \<open>The loop over the lines, from \<open>startLine = 0\<close> and \<open>lineNumbers = []\<close>.\<close>

definition parseDiff_lines :: "string list \<Rightarrow> number \<times> number list" where
  "parseDiff_lines lines = foldl (\<lambda>st line. parseDiff_line line st) (Num 0, []) lines"

definition parseDiff :: "string \<Rightarrow> number list" where
  "parseDiff diffOutput = snd (parseDiff_lines (split_on newline diffOutput))"

text \<open>The cursor and the recorded numbers after a run of lines.\<close>

definition cursorAfter :: "string list \<Rightarrow> number" where
  "cursorAfter lines = fst (parseDiff_lines lines)"

definition recorded :: "string list \<Rightarrow> number list" where
  "recorded lines = snd (parseDiff_lines lines)"

subsection \<open>More of JavaScript's strings, and its sets\<close>

text \<open>\<open>xs.join(sep)\<close>.\<close>

fun join :: "string \<Rightarrow> string list \<Rightarrow> string" where
  "join sep [] = []"
| "join sep [x] = x"
| "join sep (x # y # ys) = x @ sep @ join sep (y # ys)"

text \<open>A text of several lines.\<close>

definition unlines :: "string list \<Rightarrow> string" where
  "unlines ls = join [newline] ls"

text \<open>
  The white space that \<open>trim\<close> removes, among the code units below 256: tab, line feed,
  vertical tab, form feed, carriage return, space and the no-break space.
\<close>

definition isWhiteSpace :: "char \<Rightarrow> bool" where
  "isWhiteSpace c =
     (c \<in> {CHR 0x09, CHR 0x0A, CHR 0x0B, CHR 0x0C, CHR 0x0D, CHR 0x20, CHR 0xA0})"

definition trim :: "string \<Rightarrow> string" where
  "trim s = rev (dropWhile isWhiteSpace (rev (dropWhile isWhiteSpace s)))"



text \<open>\<open>s.includes(t)\<close>: \<open>t\<close> occurs in \<open>s\<close>.\<close>

fun includes_str :: "string \<Rightarrow> string \<Rightarrow> bool" where
  "includes_str [] t = (t = [])"
| "includes_str (c # cs) t = (prefix t (c # cs) \<or> includes_str cs t)"

text \<open>
  A \<open>Set\<close> of strings keeps its elements in the order of their first insertion, and
  \<open>Array.from\<close> lists them in that order: the model is that list.
\<close>

definition set_add :: "string \<Rightarrow> string list \<Rightarrow> string list" where
  "set_add x s = (if x \<in> set s then s else s @ [x])"

text \<open>\<open>xs.forEach(x => s.add(x))\<close>.\<close>

definition add_all :: "string list \<Rightarrow> string list \<Rightarrow> string list" where
  "add_all xs s = foldl (\<lambda>acc x. set_add x acc) s xs"

subsection \<open>runCommand\<close>

text \<open>
  \<open>execSync(command, {cwd, encoding})\<close> either returns what the command printed or throws.
  The shell, with git behind it, is a parameter: a function of the command and the working
  directory.
\<close>

datatype exec_result = Printed string | Thrown string

type_synonym shell = "string \<Rightarrow> string \<Rightarrow> exec_result"

text \<open>
  The second copy's \<open>runCommand\<close>. The first copy returns \<open>execSync(...).trim()\<close>
  without the test for an empty result, which is the same string.
\<close>

definition runCommand :: "shell \<Rightarrow> string \<Rightarrow> string \<Rightarrow> string" where
  "runCommand execSync command cwd =
     (case execSync command cwd of
        Printed result \<Rightarrow> (if result \<noteq> [] then trim result else [])
      | Thrown message \<Rightarrow> [])"

subsection \<open>getCommits\<close>

record config =
  AUTHOR :: string
  SINCE_DATE :: string
  UNTIL_DATE :: string
















text \<open>The first copy's \<open>getCommits\<close>: one query, and its lines as they are.\<close>

definition logCommand_first :: "config \<Rightarrow> string" where
  "logCommand_first cfg =
     ''git log --author=\"'' @ AUTHOR cfg @ ''\" --since=\"'' @ SINCE_DATE cfg
       @ ''\" --until=\"'' @ UNTIL_DATE cfg @ ''\" --pretty=format:\"%H\"''"

definition getCommits_first :: "shell \<Rightarrow> config \<Rightarrow> string \<Rightarrow> string list" where
  "getCommits_first sh cfg repoPath =
     (let stdout = runCommand sh (logCommand_first cfg) repoPath
      in if stdout \<noteq> [] then split_on newline stdout else [])"

subsection \<open>getListOfFiles\<close>

definition showCommand :: "string \<Rightarrow> string" where
  "showCommand commit = ''git show --pretty=\"\" --name-only '' @ commit"

text \<open>The callback of the inner \<open>forEach\<close> of the second copy.\<close>

definition addFile :: "string \<Rightarrow> string list \<Rightarrow> string list" where
  "addFile file files =
     (let trimmedFile = trim file
      in if trimmedFile \<noteq> [] then set_add trimmedFile files else files)"

text \<open>The callback of the outer \<open>forEach\<close>.\<close>

definition addCommitFiles :: "shell \<Rightarrow> string \<Rightarrow> string list \<Rightarrow> string \<Rightarrow> string list" where
  "addCommitFiles sh repoPath files commit =
     (let stdout = runCommand sh (showCommand commit) repoPath
      in if stdout \<noteq> [] then
           foldl (\<lambda>fs file. addFile file fs) files (split_on newline stdout)
         else files)"

definition getListOfFiles :: "shell \<Rightarrow> string list \<Rightarrow> string \<Rightarrow> string list" where
  "getListOfFiles sh commits repoPath = foldl (addCommitFiles sh repoPath) [] commits"

text \<open>The first copy adds every line as it is.\<close>

definition getListOfFiles_first :: "shell \<Rightarrow> string list \<Rightarrow> string \<Rightarrow> string list" where
  "getListOfFiles_first sh commits repoPath =
     foldl (\<lambda>files commit.
        add_all (split_on newline (runCommand sh (showCommand commit) repoPath)) files)
       [] commits"

subsection \<open>getTestCaseFiles\<close>

text \<open>
  \<open>minimatch(file, pattern)\<close> is a library function. The five patterns of the script are
  made of \<open>**\<close>, \<open>*\<close>, \<open>/\<close> and literal characters, and the model covers these,
  with the library's default options: the pattern and the path are split at the slashes; a
  \<open>*\<close> stands for any characters of one path segment, but a segment pattern that starts
  with \<open>*\<close> matches no segment that is empty or starts with a dot; a \<open>**\<close> segment
  stands for any number of path segments, none of them starting with a dot.
\<close>

datatype part = GLOBSTAR | Segment string

definition parsePattern :: "string \<Rightarrow> part list" where
  "parsePattern pattern =
     map (\<lambda>p. if p = ''**'' then GLOBSTAR else Segment p) (split_on (CHR ''/'') pattern)"

text \<open>A path splits at its runs of slashes.\<close>

fun collapseSlashes :: "string \<Rightarrow> string" where
  "collapseSlashes (a # b # cs) =
     (if a = CHR ''/'' \<and> b = CHR ''/'' then collapseSlashes (b # cs)
      else a # collapseSlashes (b # cs))"
| "collapseSlashes cs = cs"

definition slashSplit :: "string \<Rightarrow> string list" where
  "slashSplit f = split_on (CHR ''/'') (collapseSlashes f)"

text \<open>The characters of a segment pattern against the characters of a path segment.\<close>

fun wildcard :: "string \<Rightarrow> string \<Rightarrow> bool" where
  "wildcard [] s = (s = [])"
| "wildcard (p # ps) [] = (p = CHR ''*'' \<and> wildcard ps [])"
| "wildcard (p # ps) (c # cs) =
     (if p = CHR ''*'' then wildcard ps (c # cs) \<or> wildcard (p # ps) cs
      else p = c \<and> wildcard ps cs)"

definition segmentMatch :: "string \<Rightarrow> string \<Rightarrow> bool" where
  "segmentMatch pat seg =
     (wildcard pat seg \<and> (startsWith pat ''*'' \<longrightarrow> seg \<noteq> [] \<and> \<not> startsWith seg ''.''))"

text \<open>A segment that \<open>**\<close> does not pass over: \<open>.\<close>, \<open>..\<close> and every name that starts with a dot.\<close>

definition dotSegment :: "string \<Rightarrow> bool" where
  "dotSegment seg = startsWith seg ''.''"

text \<open>
  The segments of the path against the parts of the pattern. A pattern that is used up
  accepts only what a trailing slash leaves; a \<open>**\<close> at the end takes every segment that
  is left, one at least; a \<open>**\<close> before other parts tries them at each segment in turn.
\<close>

fun matchOne :: "string list \<Rightarrow> part list \<Rightarrow> bool" where
  "matchOne [] [] = True"
| "matchOne (f # fs) [] = (fs = [] \<and> f = [])"
| "matchOne [] (p # ps) = False"
| "matchOne (f # fs) (Segment pat # ps) = (segmentMatch pat f \<and> matchOne fs ps)"
| "matchOne (f # fs) [GLOBSTAR] = (\<not> list_ex dotSegment (f # fs))"
| "matchOne (f # fs) (GLOBSTAR # p # ps) =
     (matchOne (f # fs) (p # ps) \<or> (\<not> dotSegment f \<and> matchOne fs (GLOBSTAR # p # ps)))"

definition minimatch :: "string \<Rightarrow> string \<Rightarrow> bool" where
  "minimatch file pattern = matchOne (slashSplit file) (parsePattern pattern)"

definition getTestCaseFiles :: "string list \<Rightarrow> string list" where
  "getTestCaseFiles files =
     filter (\<lambda>file.
        minimatch file ''**/*.spec.js'' \<or> minimatch file ''**/*.test.js''
        \<or> minimatch file ''**/*.test.tsx'' \<or> minimatch file ''**/*.test.jsx''
        \<or> minimatch file ''**/*.test.ts'') files"

subsection \<open>getTestCasesLineNumbersByFile\<close>

text \<open>
  A Babel node in the place of a callee, of an object or of a property. An \<open>Identifier\<close>
  has a \<open>name\<close>. A \<open>StringLiteral\<close> has a \<open>value\<close> and no \<open>name\<close>. A
  \<open>MemberExpression\<close> has an \<open>object\<close>, a \<open>property\<close> and the flag \<open>computed\<close>:
  \<open>a.b\<close> has the property \<open>Identifier b\<close> and is not computed, \<open>a[b]\<close> has the same
  property and is computed, and \<open>a["b"]\<close> has the property \<open>StringLiteral b\<close> and is
  computed. A node of any other type is \<open>OtherNode\<close> with its type; in these places it has
  no \<open>name\<close>.
\<close>

datatype node =
  Identifier string
| StringLiteral string
| MemberExpression node node bool
| OtherNode string

text \<open>\<open>n.name\<close>; \<open>None\<close> is \<open>undefined\<close>.\<close>

fun node_name :: "node \<Rightarrow> string option" where
  "node_name (Identifier name) = Some name"
| "node_name (StringLiteral str) = None"
| "node_name (MemberExpression object property computed) = None"
| "node_name (OtherNode type) = None"

text \<open>A call expression: its callee and the lines of its \<open>loc\<close>.\<close>

record CallExpression =
  callee :: node
  loc_start_line :: nat
  loc_end_line :: nat

text \<open>The objects \<open>{start, end}\<close> that the script builds.\<close>

record LineRange =
  start :: nat
  end' :: nat

text \<open>
  The condition of the visitor. It reads the \<open>type\<close> and the \<open>name\<close> of the callee and,
  of a member expression, the \<open>name\<close> of the object and of the property; it does not read
  \<open>computed\<close>.
\<close>

fun isTestCallee :: "node \<Rightarrow> bool" where
  "isTestCallee (Identifier name) = (name = ''test'' \<or> name = ''it'')"
| "isTestCallee (MemberExpression object property computed) =
     ((node_name object = Some ''test'' \<or> node_name object = Some ''it'')
      \<and> node_name property \<in> set [Some ''skip'', Some ''only''])"
| "isTestCallee (StringLiteral str) = False"
| "isTestCallee (OtherNode type) = False"

text \<open>
  The visitor, called on the call expressions in the order of the traversal:
  \<open>lineNumberRanges.push({start: loc.start.line, end: loc.end.line})\<close> for those that pass.
\<close>

definition visitCallExpression :: "CallExpression \<Rightarrow> LineRange list \<Rightarrow> LineRange list" where
  "visitCallExpression n lineNumberRanges =
     (if isTestCallee (callee n)
      then lineNumberRanges @ [\<lparr>start = loc_start_line n, end' = loc_end_line n\<rparr>]
      else lineNumberRanges)"

text \<open>
  The file system and Babel are parameters: \<open>existsSync\<close>, \<open>readFileSync\<close> (which can
  throw), \<open>babelParser.parse\<close> (which throws on a syntax error) and, for
  \<open>traverse\<close>, the call expressions of a tree in the order in which their visitor is
  called. An exception is not caught by the function: it is the result \<open>Inl\<close>.
\<close>

datatype js_error = Exception string

record 'ast platform =
  existsSync :: "string \<Rightarrow> bool"
  readFileSync :: "string \<Rightarrow> js_error + string"
  parse :: "string \<Rightarrow> js_error + 'ast"
  callExpressions :: "'ast \<Rightarrow> CallExpression list"

definition getTestCasesLineNumbersByFile :: "'ast platform \<Rightarrow> string \<Rightarrow> js_error + LineRange list" where
  "getTestCasesLineNumbersByFile pf filePath =
     (if \<not> existsSync pf filePath then Inr []
      else (case readFileSync pf filePath of
              Inl e \<Rightarrow> Inl e
            | Inr code \<Rightarrow>
                (case parse pf code of
                   Inl e \<Rightarrow> Inl e
                 | Inr ast \<Rightarrow>
                     Inr (foldl (\<lambda>ranges n. visitCallExpression n ranges) []
                            (callExpressions pf ast)))))"

subsection \<open>getUpdatedTestCases\<close>

definition getUpdatedTestCases :: "LineRange list \<Rightarrow> nat list \<Rightarrow> LineRange list" where
  "getUpdatedTestCases testCases updateLines =
     filter (\<lambda>testCase.
        list_ex (\<lambda>line. line \<ge> start testCase \<and> line \<le> end' testCase) updateLines)
       testCases"

subsection \<open>getTotalLinesByAuthor\<close>

definition numstatCommand :: "string \<Rightarrow> string" where
  "numstatCommand commit = ''git show '' @ commit @ '' --numstat''"

text \<open>\<open>/^\d+$/.test(val)\<close>: a non-empty string of digits.\<close>

definition allDigits :: "string \<Rightarrow> bool" where
  "allDigits val = (val \<noteq> [] \<and> list_all isDigit val)"

text \<open>
  \<open>stdout.split('\n').map(line => line.split('\t')[0]).filter(...).reduce(...)\<close> for one
  commit.
\<close>

definition addedLines :: "string \<Rightarrow> number" where
  "addedLines stdout =
     foldl (\<lambda>sum val. js_add sum (parseInt val)) (Num 0)
       (filter allDigits
          (map (\<lambda>line. hd (split_on tab line)) (split_on newline stdout)))"

text \<open>The loop over the commits, from \<open>totalLines = 0\<close>.\<close>

definition getTotalLinesByAuthor :: "shell \<Rightarrow> string list \<Rightarrow> string \<Rightarrow> number" where
  "getTotalLinesByAuthor sh commits repoPath =
     foldl (\<lambda>totalLines commit.
        js_add totalLines (addedLines (runCommand sh (numstatCommand commit) repoPath)))
       (Num 0) commits"

section \<open>Notions used in the statements\<close>

subsection \<open>Hunk headers\<close>

text \<open>A number as the diff writes it: one digit or more.\<close>

definition digits :: "string \<Rightarrow> bool" where
  "digits s = (s \<noteq> [] \<and> list_all isDigit s)"

text \<open>The decimal notation of a number, as git writes line numbers and counts.\<close>

definition digitChar :: "nat \<Rightarrow> char" where
  "digitChar d = ''0123456789'' ! d"

function decimal :: "nat \<Rightarrow> string" where
  "decimal n =
     (if n < 10 then [digitChar n] else decimal (n div 10) @ [digitChar (n mod 10)])"
  by pat_completeness auto
termination
  by (relation "measure id") auto

declare decimal.simps [simp del]

text \<open>The optional count of a hunk header: nothing, or a comma and a number.\<close>

definition countPart :: "string \<Rightarrow> bool" where
  "countPart s = (s = [] \<or> (hd s = CHR '','' \<and> digits (tl s)))"

text \<open>
  The hunk header \<open>@@ -a[,b] +c[,d] @@\<close> and what follows it on its line; \<open>b\<close> and
  \<open>d\<close> are the optional counts with their commas.
\<close>

definition hunkHeader :: "string \<Rightarrow> string \<Rightarrow> string \<Rightarrow> string \<Rightarrow> string \<Rightarrow> string" where
  "hunkHeader a b c d rest = ''@@ -'' @ a @ b @ '' +'' @ c @ d @ '' @@'' @ rest"

text \<open>The string \<open>s\<close> begins with a hunk header whose new start is written \<open>c\<close>.\<close>

definition beginsWithHeader :: "string \<Rightarrow> string \<Rightarrow> bool" where
  "beginsWithHeader s c =
     (\<exists>a b d rest. digits a \<and> countPart b \<and> digits c \<and> countPart d
        \<and> s = hunkHeader a b c d rest)"

text \<open>The line holds a hunk header, at its start or further right.\<close>

definition holdsHeader :: "string \<Rightarrow> bool" where
  "holdsHeader l = (\<exists>pre s c. l = pre @ s \<and> beginsWithHeader s c)"

text \<open>
  The leftmost hunk header that the line holds has the new start \<open>c\<close>: a header begins
  after \<open>pre\<close>, and none begins at a place inside \<open>pre\<close>.
\<close>

definition leftmostHeader :: "string \<Rightarrow> string \<Rightarrow> bool" where
  "leftmostHeader l c =
     (\<exists>pre s. l = pre @ s \<and> beginsWithHeader s c
        \<and> (\<forall>i<length pre. \<forall>c'. \<not> beginsWithHeader (drop i l) c'))"

text \<open>
  A line at which \<open>parseDiff\<close> sets the cursor anew: it begins with \<open>@@\<close> and the
  expression matches in it, which is to say that it holds a hunk header.
\<close>

definition resetsCursor :: "string \<Rightarrow> bool" where
  "resetsCursor line = (startsWith line ''@@'' \<and> hunkMatch line \<noteq> None)"

subsection \<open>The run of parseDiff, in parts\<close>

text \<open>The loop of \<open>parseDiff\<close> from any state.\<close>

definition parseDiff_from ::
  "number \<times> number list \<Rightarrow> string list \<Rightarrow> number \<times> number list" where
  "parseDiff_from st lines = foldl (\<lambda>st line. parseDiff_line line st) st lines"

text \<open>The numbers recorded while the lines \<open>seg\<close> are read, after the lines \<open>pre\<close>.\<close>

definition recordedDuring :: "string list \<Rightarrow> string list \<Rightarrow> number list" where
  "recordedDuring pre seg = drop (length (recorded pre)) (recorded (pre @ seg))"

subsection \<open>The cursor algorithm in three rules\<close>

text \<open>
  The algorithm with exactly three rules, on line numbers as natural numbers: a line that
  begins with a hunk header \<open>@@ -a[,b] +c[,d] @@\<close> sets the cursor to \<open>c\<close> (the
  expression matches at the start of the line); a line that begins with \<open>+\<close> but not with
  \<open>+++\<close> records the cursor and increments it; any other line that does not begin with a
  backslash increments the cursor.
\<close>

definition stated_line :: "string \<Rightarrow> nat \<times> nat list \<Rightarrow> nat \<times> nat list" where
  "stated_line line st =
     (case st of (cursor, acc) \<Rightarrow>
        (case matchHere line of
           Some c \<Rightarrow> (decimalValue c, acc)
         | None \<Rightarrow>
             if startsWith line ''+'' \<and> \<not> startsWith line ''+++'' then (cursor + 1, acc @ [cursor])
             else if \<not> startsWith line [backslash] then (cursor + 1, acc)
             else (cursor, acc)))"

definition stated_from :: "nat \<times> nat list \<Rightarrow> string list \<Rightarrow> nat \<times> nat list" where
  "stated_from st lines = foldl (\<lambda>st line. stated_line line st) st lines"

definition stated_parseDiff :: "string \<Rightarrow> nat list" where
  "stated_parseDiff d = snd (stated_from (0, []) (split_on newline d))"

text \<open>
  The lines are those of a unified diff in this respect: every line that begins with
  \<open>@@\<close> begins with a hunk header.
\<close>

definition headersWellFormed :: "string list \<Rightarrow> bool" where
  "headersWellFormed lines =
     (\<forall>line\<in>set lines. startsWith line ''@@'' \<longrightarrow> (\<exists>c. beginsWithHeader line c))"

text \<open>
  The line numbers of the diff stay in the range in which JavaScript counts exactly: the
  start of a hunk and as many lines as the diff has remain at most \<open>2^53\<close>.
\<close>

definition withinExactRange :: "string list \<Rightarrow> bool" where
  "withinExactRange lines =
     (length lines \<le> 2 ^ 53
      \<and> (\<forall>line\<in>set lines. \<forall>c. beginsWithHeader line c \<longrightarrow>
            decimalValue c + length lines \<le> 2 ^ 53))"

subsection \<open>The order of the numbers\<close>

text \<open>\<open>x < y\<close> and \<open>x <= y\<close> in JavaScript.\<close>

fun below :: "number \<Rightarrow> number \<Rightarrow> bool" where
  "below (Num a) (Num b) = (a < b)"
| "below (Num a) Infinity = True"
| "below x y = False"

fun notAbove :: "number \<Rightarrow> number \<Rightarrow> bool" where
  "notAbove (Num a) (Num b) = (a \<le> b)"
| "notAbove (Num a) Infinity = True"
| "notAbove Infinity Infinity = True"
| "notAbove x y = False"

text \<open>A number below \<open>2^53\<close>: JavaScript counts on from it exactly.\<close>

fun exact :: "number \<Rightarrow> bool" where
  "exact (Num n) = (n < 2 ^ 53)"
| "exact x = False"

text \<open>A value that a double can have: \<open>Infinity\<close>, or a natural number that is its own double.\<close>

fun isDouble :: "number \<Rightarrow> bool" where
  "isDouble (Num n) = (roundToDouble n = Num n)"
| "isDouble Infinity = True"
| "isDouble NaN = False"

subsection \<open>The three methods of getCommits\<close>









text \<open>
  A command restricts the commits to the full days of the window: it holds
  \<open>--since="<since>T00:00:00"\<close> and \<open>--until="<until>T23:59:59"\<close>.
\<close>

definition fullDayWindow :: "config \<Rightarrow> string \<Rightarrow> bool" where
  "fullDayWindow cfg command =
     (includes_str command (''--since=\"'' @ SINCE_DATE cfg @ ''T00:00:00\"'')
      \<and> includes_str command (''--until=\"'' @ UNTIL_DATE cfg @ ''T23:59:59\"''))"


subsection \<open>File names\<close>

text \<open>A string of white space only; the empty string is one.\<close>

definition blank :: "string \<Rightarrow> bool" where
  "blank s = list_all isWhiteSpace s"

text \<open>
  The names of the files a commit changed: the lines that git prints for it, trimmed, without
  the empty ones.
\<close>

definition fileNames :: "shell \<Rightarrow> string \<Rightarrow> string \<Rightarrow> string list" where
  "fileNames sh repoPath commit =
     filter (\<lambda>f. f \<noteq> [])
       (map trim (split_on newline (runCommand sh (showCommand commit) repoPath)))"

subsection \<open>Test files and test blocks\<close>

definition testPatterns :: "string list" where
  "testPatterns =
     [''**/*.spec.js'', ''**/*.test.js'', ''**/*.test.tsx'', ''**/*.test.jsx'', ''**/*.test.ts'']"

text \<open>
  The name of the property that a member expression accesses, where the expression states
  it: the identifier after the dot of \<open>a.b\<close>, and the string between the brackets of
  \<open>a["b"]\<close>. In \<open>a[b]\<close> the property accessed is the value of \<open>b\<close>, which the
  expression does not state.
\<close>

fun accessedPropertyName :: "node \<Rightarrow> string option" where
  "accessedPropertyName (MemberExpression object (Identifier name) False) = Some name"
| "accessedPropertyName (MemberExpression object (StringLiteral str) True) = Some str"
| "accessedPropertyName n = None"

text \<open>A member access written with brackets, \<open>a[...]\<close>.\<close>

fun isComputed :: "node \<Rightarrow> bool" where
  "isComputed (MemberExpression object property computed) = computed"
| "isComputed n = False"

text \<open>
  The condition as it is stated: the callee is an identifier named \<open>test\<close> or \<open>it\<close>, or
  a member access whose object is an identifier named \<open>test\<close> or \<open>it\<close> and whose
  accessed property name is \<open>skip\<close> or \<open>only\<close>.
\<close>

fun stated_isTestCallee :: "node \<Rightarrow> bool" where
  "stated_isTestCallee (Identifier name) = (name = ''test'' \<or> name = ''it'')"
| "stated_isTestCallee (MemberExpression object property computed) =
     ((object = Identifier ''test'' \<or> object = Identifier ''it'')
      \<and> accessedPropertyName (MemberExpression object property computed)
            \<in> set [Some ''skip'', Some ''only''])"
| "stated_isTestCallee n = False"

text \<open>The range of a call expression: the lines of its source location.\<close>

definition rangeOf :: "CallExpression \<Rightarrow> LineRange" where
  "rangeOf n = \<lparr>start = loc_start_line n, end' = loc_end_line n\<rparr>"

subsection \<open>Added counts\<close>

text \<open>
  The added count of a numstat line, a natural number: the number that its first column
  writes, and 0 when the first column is not a number.
\<close>

definition addedCount :: "string \<Rightarrow> nat" where
  "addedCount line =
     (let val = hd (split_on tab line) in if allDigits val then decimalValue val else 0)"

text \<open>The lines that \<open>git show --numstat\<close> prints for a commit.\<close>

definition numstatLines :: "shell \<Rightarrow> string \<Rightarrow> string \<Rightarrow> string list" where
  "numstatLines sh repoPath commit =
     split_on newline (runCommand sh (numstatCommand commit) repoPath)"

subsection \<open>A repository for the examples\<close>

text \<open>The configuration of the second copy, for the author Jane Doe.\<close>

definition july :: config where
  "july = \<lparr>AUTHOR = ''Jane Doe'', SINCE_DATE = ''2025-07-01'', UNTIL_DATE = ''2025-07-31''\<rparr>"

text \<open>
  A repository with four commits in July 2025: \<open>a1\<close> and \<open>b2\<close> by \<open>Jane Doe\<close>,
  \<open>c3\<close> by \<open>Doe, Jane\<close> and \<open>e5\<close> by \<open>Jane Smith\<close>. Every other command fails.
\<close>

definition exampleGit :: shell where
  "exampleGit command cwd =
     (if command = ''git log --author=\"Jane Doe\" --since=\"2025-07-01T00:00:00\" --until=\"2025-07-31T23:59:59\" --pretty=format:\"%H\"''
      then Printed (unlines [''a1'', ''b2''] @ [newline])
      else if command = ''git log --author=\"Doe, Jane\" --since=\"2025-07-01T00:00:00\" --until=\"2025-07-31T23:59:59\" --pretty=format:\"%H\"''
      then Printed (unlines [''c3''])
      else if command = ''git log --author=\"Jane\" --since=\"2025-07-01T00:00:00\" --until=\"2025-07-31T23:59:59\" --pretty=format:\"%H %an\"''
      then Printed (unlines [''a1 Jane Doe'', ''b2 JANE DOE'', ''c3 Doe, Jane'', ''e5 Jane Smith''])
      else if command = ''git show --pretty=\"\" --name-only a1''
      then Printed (unlines [''src/a.test.js'', ''src/b.js'', ''''])
      else if command = ''git show --pretty=\"\" --name-only b2''
      then Printed (unlines [''src/b.js'', '' README.md '', ''   ''])
      else if command = ''git show a1 --numstat''
      then Printed (unlines [''commit a1'', ''Author: Jane Doe'', '''', ''    12 fixes'', '''',
             ''12'' @ [tab] @ ''3'' @ [tab] @ ''src/a.test.js'',
             ''-'' @ [tab] @ ''-'' @ [tab] @ ''logo.png'',
             ''7'' @ [tab] @ ''0'' @ [tab] @ ''src/b.js''])
      else Thrown ''fatal'')"


text \<open>A shell in which every command prints nothing.\<close>

definition silent :: shell where
  "silent command cwd = Printed []"

text \<open>
  A test file as Babel shows it: the calls \<open>describe(...)\<close>, \<open>test(...)\<close>,
  \<open>it.only(...)\<close>, \<open>expect(...)\<close>, \<open>test.each(...)\<close>, \<open>a.test.skip(...)\<close>, a call
  of a function expression, \<open>it.skip(...)\<close>, \<open>test[skip](...)\<close> and
  \<open>test["only"](...)\<close>. No other file exists.
\<close>

definition exampleCalls :: "CallExpression list" where
  "exampleCalls =
     [\<lparr>callee = Identifier ''describe'', loc_start_line = 1, loc_end_line = 30\<rparr>,
      \<lparr>callee = Identifier ''test'', loc_start_line = 2, loc_end_line = 6\<rparr>,
      \<lparr>callee = MemberExpression (Identifier ''it'') (Identifier ''only'') False,
         loc_start_line = 8, loc_end_line = 12\<rparr>,
      \<lparr>callee = Identifier ''expect'', loc_start_line = 9, loc_end_line = 9\<rparr>,
      \<lparr>callee = MemberExpression (Identifier ''test'') (Identifier ''each'') False,
         loc_start_line = 14, loc_end_line = 14\<rparr>,
      \<lparr>callee = MemberExpression
                  (MemberExpression (Identifier ''a'') (Identifier ''test'') False)
                  (Identifier ''skip'') False,
         loc_start_line = 16, loc_end_line = 18\<rparr>,
      \<lparr>callee = OtherNode ''FunctionExpression'', loc_start_line = 19, loc_end_line = 19\<rparr>,
      \<lparr>callee = MemberExpression (Identifier ''it'') (Identifier ''skip'') False,
         loc_start_line = 20, loc_end_line = 28\<rparr>,
      \<lparr>callee = MemberExpression (Identifier ''test'') (Identifier ''skip'') True,
         loc_start_line = 32, loc_end_line = 34\<rparr>,
      \<lparr>callee = MemberExpression (Identifier ''test'') (StringLiteral ''only'') True,
         loc_start_line = 36, loc_end_line = 38\<rparr>]"

definition examplePlatform :: "string platform" where
  "examplePlatform =
     \<lparr>existsSync = (\<lambda>p. p = ''/repo/src/a.test.js''),
      readFileSync = (\<lambda>p. if p = ''/repo/src/a.test.js'' then Inr ''describe(...)''
                           else Inl (Exception ''ENOENT'')),
      parse = (\<lambda>code. Inr code),
      callExpressions = (\<lambda>ast. exampleCalls)\<rparr>"

section \<open>Numbers: the rounding of doubles\<close>

subsection \<open>Binary length\<close>

lemma bitLength_upper: "n < 2 ^ bitLength n"
proof (induction n rule: bitLength.induct)
  case (1 n)
  show ?case
  proof (cases "n = 0")
    case True
    then show ?thesis by (simp add: bitLength.simps)
  next
    case False
    then have "n div 2 < 2 ^ bitLength (n div 2)"
      using 1 by simp
    then have "n < 2 * 2 ^ bitLength (n div 2)"
      by linarith
    then show ?thesis
      using False by (simp add: bitLength.simps [of n])
  qed
qed

lemma bitLength_lower: "n \<noteq> 0 \<Longrightarrow> 2 ^ (bitLength n - 1) \<le> n"
proof (induction n rule: bitLength.induct)
  case (1 n)
  show ?case
  proof (cases "n div 2 = 0")
    case True
    then show ?thesis
      using "1.prems" by (simp add: bitLength.simps [of n] bitLength.simps [of 0])
  next
    case False
    then have "2 ^ (bitLength (n div 2) - 1) \<le> n div 2"
      using 1 by simp
    moreover have "bitLength (n div 2) \<noteq> 0"
      using False by (simp add: bitLength.simps [of "n div 2"])
    ultimately have "2 ^ bitLength (n div 2) \<le> 2 * (n div 2)"
      by (cases "bitLength (n div 2)") auto
    then have "2 ^ bitLength (n div 2) \<le> n"
      by linarith
    then show ?thesis
      using "1.prems" by (simp add: bitLength.simps [of n])
  qed
qed

lemma bitLength_eq:
  assumes "2 ^ k \<le> n" "n < 2 ^ Suc k"
  shows "bitLength n = Suc k"
proof -
  have n0: "n \<noteq> 0"
    using assms(1) by (cases "n = 0") auto
  have "(2::nat) ^ k < 2 ^ bitLength n"
    using assms(1) bitLength_upper [of n] by linarith
  then have a: "k < bitLength n"
    by simp
  have "(2::nat) ^ (bitLength n - 1) < 2 ^ Suc k"
    using assms(2) bitLength_lower [OF n0] by linarith
  then have "bitLength n - 1 < Suc k"
    by (simp only: power_strict_increasing_iff)
  then show ?thesis
    using a by linarith
qed

lemma big_shape:
  assumes "2 ^ 53 \<le> n"
  shows "bitLength n = (bitLength n - 53) + 53"
    and "1 \<le> bitLength n - 53"
    and "2 ^ 52 \<le> n div 2 ^ (bitLength n - 53)"
    and "n div 2 ^ (bitLength n - 53) < 2 ^ 53"
proof -
  have "(2::nat) ^ 53 < 2 ^ bitLength n"
    using assms bitLength_upper [of n] by linarith
  then have big: "53 < bitLength n"
    by (rule power_less_imp_less_exp [rotated]) simp
  then show a: "bitLength n = (bitLength n - 53) + 53" and "1 \<le> bitLength n - 53"
    by simp_all
  have n0: "n \<noteq> 0"
    using assms by auto
  have "bitLength n - 1 = 52 + (bitLength n - 53)"
    using big by simp
  then have "(2::nat) ^ 52 * 2 ^ (bitLength n - 53) \<le> n"
    using bitLength_lower [OF n0] by (simp only: power_add)
  then show "2 ^ 52 \<le> n div 2 ^ (bitLength n - 53)"
    by (simp only: less_eq_div_iff_mult_less_eq zero_less_power zero_less_numeral)
  have "n < 2 ^ ((bitLength n - 53) + 53)"
    using bitLength_upper [of n] a by simp
  then have "n < 2 ^ 53 * 2 ^ (bitLength n - 53)"
    by (simp only: power_add mult.commute)
  then show "n div 2 ^ (bitLength n - 53) < 2 ^ 53"
    by (rule less_mult_imp_div_less)
qed


subsection \<open>Rounding\<close>

text \<open>Up to \<open>2^53\<close> every natural number is a double.\<close>

lemma roundToDouble_exact:
  assumes "n \<le> 2 ^ 53"
  shows "roundToDouble n = Num n"
proof (cases "n < 2 ^ 53")
  case True
  then show ?thesis
    by (simp add: roundToDouble_def)
next
  case False
  then have "n = 9007199254740992"
    using assms by simp
  then show ?thesis
    by (simp add: roundToDouble_def bitLength.simps Let_def)
qed

lemma roundToDouble_unfold:
  assumes "2 ^ 53 \<le> n" and "bitLength n = e + 53"
  shows "roundToDouble n =
     (let q = n div 2 ^ e;
          r = n mod 2 ^ e;
          q' = (if 2 ^ e < 2 * r \<or> (2 * r = 2 ^ e \<and> odd q) then q + 1 else q)
      in if 2 ^ 1024 \<le> q' * 2 ^ e then Infinity else Num (q' * 2 ^ e))"
proof -
  have "\<not> n < 2 ^ 53"
    using assms(1) by linarith
  moreover have "bitLength n - 53 = e"
    using assms(2) by simp
  ultimately show ?thesis
    unfolding roundToDouble_def by (simp only: if_False Let_def)
qed

text \<open>A number of 53 binary digits, followed by \<open>e\<close> zeros, is a double unless it is too large.\<close>

lemma roundToDouble_scaled:
  assumes "2 ^ 52 \<le> m" and "m < 2 ^ 53"
  shows "roundToDouble (m * 2 ^ e) = (if 2 ^ 1024 \<le> m * 2 ^ e then Infinity else Num (m * 2 ^ e))"
proof (cases e)
  case 0
  have "m < 2 ^ 1024"
    using assms(2) by simp
  then show ?thesis
    using 0 assms(2) by (simp add: roundToDouble_def)
next
  case (Suc e')
  have lo: "2 ^ (52 + e) \<le> m * 2 ^ e"
    using assms(1) by (simp only: power_add mult_le_mono1)
  have hi: "m * 2 ^ e < 2 ^ Suc (52 + e)"
  proof -
    have "m * 2 ^ e < 2 ^ 53 * 2 ^ e"
      using assms(2) by (simp only: mult_less_cancel2 zero_less_power zero_less_numeral simp_thms)
    then show ?thesis
      by (simp add: power_add)
  qed
  have len: "bitLength (m * 2 ^ e) = e + 53"
    using bitLength_eq [OF lo hi] by simp
  have "(2::nat) ^ 53 \<le> 2 ^ (52 + e)"
    using Suc by (intro power_increasing) auto
  then have big: "2 ^ 53 \<le> m * 2 ^ e"
    using lo by linarith
  show ?thesis
    unfolding roundToDouble_unfold [OF big len] by (simp add: Let_def)
qed


text \<open>What rounding returns is a double: rounding it again changes nothing.\<close>

lemma roundToDouble_values:
  "roundToDouble n = Infinity \<or> (\<exists>v. roundToDouble n = Num v \<and> roundToDouble v = Num v)"
proof (cases "n < 2 ^ 53")
  case True
  then show ?thesis
    by (simp add: roundToDouble_def)
next
  case False
  then have big: "2 ^ 53 \<le> n"
    by simp
  define e where "e = bitLength n - 53"
  define q where "q = n div 2 ^ e"
  define q' where
    "q' = (if 2 ^ e < 2 * (n mod 2 ^ e) \<or> (2 * (n mod 2 ^ e) = 2 ^ e \<and> odd q) then q + 1 else q)"
  have len: "bitLength n = e + 53" and q: "2 ^ 52 \<le> q" "q < 2 ^ 53"
    using big_shape [OF big] by (simp_all add: e_def q_def)
  have rd: "roundToDouble n = (if 2 ^ 1024 \<le> q' * 2 ^ e then Infinity else Num (q' * 2 ^ e))"
    unfolding roundToDouble_unfold [OF big len] by (simp only: Let_def q_def q'_def)
  show ?thesis
  proof (cases "2 ^ 1024 \<le> q' * 2 ^ e")
    case True
    then show ?thesis
      using rd by simp
  next
    case fin: False
    have q'': "q' = q \<or> q' = q + 1"
      by (simp add: q'_def)
    have "roundToDouble (q' * 2 ^ e) = Num (q' * 2 ^ e)"
    proof (cases "q' < 2 ^ 53")
      case True
      moreover have "2 ^ 52 \<le> q'"
        using q(1) q'' by auto
      ultimately show ?thesis
        using roundToDouble_scaled [of q' e] fin by simp
    next
      case False
      then have "q' = 2 ^ 53"
        using q(2) q'' by auto
      then have eq: "q' * 2 ^ e = 2 ^ 52 * 2 ^ Suc e"
        by simp
      show ?thesis
        using roundToDouble_scaled [of "2 ^ 52" "Suc e"] fin unfolding eq by simp
    qed
    then show ?thesis
      using rd fin by simp
  qed
qed

text \<open>Adding one to a double does not give a smaller number.\<close>

lemma roundToDouble_next:
  assumes "roundToDouble n = Num n"
  shows "roundToDouble (n + 1) = Infinity \<or> (\<exists>v. roundToDouble (n + 1) = Num v \<and> n \<le> v)"
proof (cases "n < 2 ^ 53")
  case True
  then have "roundToDouble (n + 1) = Num (n + 1)"
    by (intro roundToDouble_exact) simp
  then show ?thesis
    by simp
next
  case False
  then have big: "2 ^ 53 \<le> n"
    by simp
  define e where "e = bitLength n - 53"
  define q where "q = n div 2 ^ e"
  define r where "r = n mod 2 ^ e"
  define q' where "q' = (if 2 ^ e < 2 * r \<or> (2 * r = 2 ^ e \<and> odd q) then q + 1 else q)"
  have len: "bitLength n = e + 53" and e1: "1 \<le> e" and q: "2 ^ 52 \<le> q" "q < 2 ^ 53"
    using big_shape [OF big] by (simp_all add: e_def q_def)
  have rd: "roundToDouble n = (if 2 ^ 1024 \<le> q' * 2 ^ e then Infinity else Num (q' * 2 ^ e))"
    unfolding roundToDouble_unfold [OF big len] by (simp only: Let_def q_def q'_def r_def)
  have n': "n = q' * 2 ^ e"
    using assms rd by (simp split: if_splits)
  have n: "n = q * 2 ^ e + r"
    unfolding q_def r_def by (rule div_mult_mod_eq [symmetric])
  have r: "r < 2 ^ e"
    by (simp add: r_def)
  have "q' \<noteq> q + 1"
    using n n' r by auto
  then have "q' = q"
    by (auto simp: q'_def split: if_splits)
  then have r0: "n = q * 2 ^ e"
    using n' by simp
  have two: "(2::nat) \<le> 2 ^ e"
    using e1 by (cases e) auto
  have lo: "2 ^ (52 + e) \<le> n + 1"
  proof -
    have "2 ^ 52 * 2 ^ e \<le> q * 2 ^ e"
      using q(1) by (rule mult_le_mono1)
    moreover have "(2::nat) ^ (52 + e) = 2 ^ 52 * 2 ^ e"
      by (rule power_add)
    ultimately show ?thesis
      using r0 by linarith
  qed
  have hi: "n + 1 < 2 ^ Suc (52 + e)"
  proof -
    have "q + 1 \<le> 2 ^ 53"
      using q(2) by simp
    then have "(q + 1) * 2 ^ e \<le> 2 ^ 53 * 2 ^ e"
      by (rule mult_le_mono1)
    moreover have "(q + 1) * 2 ^ e = q * 2 ^ e + 2 ^ e"
      by (simp add: algebra_simps)
    ultimately have "n + 1 < 2 ^ 53 * 2 ^ e"
      using r0 two by linarith
    moreover have "(2::nat) ^ Suc (52 + e) = 2 ^ 53 * 2 ^ e"
      using power_add [of "2::nat" 53 e] by simp
    ultimately show ?thesis
      by (simp only:)
  qed
  have len1: "bitLength (n + 1) = e + 53"
    using bitLength_eq [OF lo hi] by simp
  have big1: "2 ^ 53 \<le> n + 1"
    using big by simp
  have div1: "(n + 1) div 2 ^ e = q"
  proof (rule div_nat_eqI)
    show "2 ^ e * q \<le> n + 1"
      using r0 by (simp add: mult.commute)
    have "2 ^ e * Suc q = q * 2 ^ e + 2 ^ e"
      by (simp add: mult.commute)
    then show "n + 1 < 2 ^ e * Suc q"
      using r0 two by linarith
  qed
  define q1 where "q1 = (if 2 ^ e < 2 * ((n + 1) mod 2 ^ e)
      \<or> (2 * ((n + 1) mod 2 ^ e) = 2 ^ e \<and> odd ((n + 1) div 2 ^ e))
    then (n + 1) div 2 ^ e + 1 else (n + 1) div 2 ^ e)"
  have rd1: "roundToDouble (n + 1)
      = (if 2 ^ 1024 \<le> q1 * 2 ^ e then Infinity else Num (q1 * 2 ^ e))"
    unfolding roundToDouble_unfold [OF big1 len1] by (simp only: Let_def q1_def)
  have "q \<le> q1"
    using div1 by (simp add: q1_def)
  then have "q * 2 ^ e \<le> q1 * 2 ^ e"
    by (rule mult_le_mono1)
  then have "n \<le> q1 * 2 ^ e"
    using r0 by simp
  then show ?thesis
    using rd1 by simp
qed

subsection \<open>Addition, increment and order\<close>

lemma js_add_exact: "a + b \<le> 2 ^ 53 \<Longrightarrow> js_add (Num a) (Num b) = Num (a + b)"
  by (simp add: roundToDouble_exact)

lemma increment_exact: "n < 2 ^ 53 \<Longrightarrow> increment (Num n) = Num (n + 1)"
  by (simp add: increment_def roundToDouble_exact)

lemma increment_limit: "increment (Num 9007199254740992) = Num 9007199254740992"
  by (simp add: increment_def roundToDouble_def bitLength.simps Let_def)

lemma isDouble_roundToDouble: "isDouble (roundToDouble n)"
  using roundToDouble_values [of n] by auto

lemma isDouble_zero: "isDouble (Num 0)"
  by (simp add: roundToDouble_def)

lemma isDouble_increment:
  assumes "isDouble x"
  shows "isDouble (increment x) \<and> notAbove x (increment x)"
proof (cases x)
  case (Num n)
  then have n: "roundToDouble n = Num n"
    using assms by simp
  have "isDouble (roundToDouble (n + 1))"
    by (rule isDouble_roundToDouble)
  moreover have "notAbove (Num n) (roundToDouble (n + 1))"
    using roundToDouble_next [OF n] by auto
  ultimately show ?thesis
    using Num by (simp add: increment_def)
next
  case Infinity
  then show ?thesis
    by (simp add: increment_def)
next
  case NaN
  then show ?thesis
    using assms by simp
qed

lemma notAbove_refl: "isDouble x \<Longrightarrow> notAbove x x"
  by (cases x) auto

lemma notAbove_trans: "notAbove x y \<Longrightarrow> notAbove y z \<Longrightarrow> notAbove x z"
  by (cases x; cases y; cases z) auto

lemma below_increment:
  assumes "exact x" and "notAbove (increment x) y"
  shows "below x y"
proof -
  obtain n where n: "x = Num n" "n < 2 ^ 53"
    using assms(1) by (cases x) auto
  then have "notAbove (Num (n + 1)) y"
    using assms(2) increment_exact [of n] by simp
  then show ?thesis
    using n(1) by (cases y) auto
qed

section \<open>parseDiff: the cursor algorithm\<close>

lemmas parseDiff_eval =
  parseDiff_def parseDiff_lines_def parseDiff_line_def unlines_def newline_def startsWith_def
  matchHere_def literal_def digits1_def optCount_def isDigit_def parseInt_def decimalValue_def
  digitValue_def roundToDouble_def increment_def backslash_def cursorAfter_def recorded_def

subsection \<open>The expression on a hunk header\<close>

lemma digits1_append:
  assumes "digits a" and "r = [] \<or> \<not> isDigit (hd r)"
  shows "digits1 (a @ r) = Some (a, r)"
proof -
  have all: "\<forall>x\<in>set a. isDigit x"
    using assms(1) by (simp add: digits_def list_all_iff)
  have r: "takeWhile isDigit r = []"
    using assms(2) by (cases r) auto
  have dr: "dropWhile isDigit r = r"
    using assms(2) by (cases r) auto
  have "takeWhile isDigit (a @ r) = a"
    using all r by (simp add: takeWhile_append2)
  moreover have "dropWhile isDigit (a @ r) = r"
    using all dr by (simp add: dropWhile_append2)
  moreover have "a \<noteq> []"
    using assms(1) by (simp add: digits_def)
  ultimately show ?thesis
    by (simp add: digits1_def)
qed

lemma optCount_append:
  assumes "countPart b" and "r \<noteq> []" and "hd r = CHR '' ''"
  shows "optCount (b @ r) = r"
proof (cases b)
  case Nil
  then show ?thesis
    using assms(2,3) by (cases r) (auto simp: optCount_def)
next
  case (Cons x n)
  then have x: "x = CHR '',''" and n: "digits n"
    using assms(1) by (auto simp: countPart_def)
  have "\<not> isDigit (hd r)"
    using assms(3) by (simp add: isDigit_def)
  then have "digits1 (n @ r) = Some (n, r)"
    using n by (intro digits1_append) auto
  then show ?thesis
    using Cons x by (simp add: optCount_def)
qed

lemma countPart_hd:
  assumes "countPart b" and "r \<noteq> []" and "hd r = CHR '' ''"
  shows "\<not> isDigit (hd (b @ r))"
  using assms by (cases b) (auto simp: countPart_def isDigit_def)

lemma literal_append: "literal p (p @ r) = Some r"
  by (simp add: literal_def)

lemma matchHere_hunkHeader:
  assumes "digits a" "countPart b" "digits c" "countPart d"
  shows "matchHere (hunkHeader a b c d rest) = Some c"
proof -
  have 1: "literal ''@@ -'' (hunkHeader a b c d rest)
             = Some (a @ b @ '' +'' @ c @ d @ '' @@'' @ rest)"
    unfolding hunkHeader_def by (rule literal_append)
  have 2: "digits1 (a @ (b @ '' +'' @ c @ d @ '' @@'' @ rest))
             = Some (a, b @ '' +'' @ c @ d @ '' @@'' @ rest)"
    using assms(1) countPart_hd [OF assms(2), of "'' +'' @ c @ d @ '' @@'' @ rest"]
    by (intro digits1_append) auto
  have 3: "optCount (b @ ('' +'' @ c @ d @ '' @@'' @ rest)) = '' +'' @ c @ d @ '' @@'' @ rest"
    using assms(2) by (intro optCount_append) auto
  have 4: "literal '' +'' ('' +'' @ (c @ d @ '' @@'' @ rest)) = Some (c @ d @ '' @@'' @ rest)"
    by (rule literal_append)
  have 5: "digits1 (c @ (d @ '' @@'' @ rest)) = Some (c, d @ '' @@'' @ rest)"
    using assms(3) countPart_hd [OF assms(4), of "'' @@'' @ rest"]
    by (intro digits1_append) auto
  have 6: "optCount (d @ ('' @@'' @ rest)) = '' @@'' @ rest"
    using assms(4) by (intro optCount_append) auto
  have 7: "literal '' @@'' ('' @@'' @ rest) = Some rest"
    by (rule literal_append)
  show ?thesis
    unfolding matchHere_def using 1 2 3 4 5 6 7 by simp
qed

lemma hunkMatch_here: "matchHere s = Some g \<Longrightarrow> hunkMatch s = Some g"
  by (cases s) auto

text \<open>
  The converse: where the expression matches, a hunk header stands. The expression matches
  at the start of a string exactly when the string begins with a hunk header, and it matches
  in a line exactly at the leftmost header the line holds.
\<close>

lemma literal_Some: "literal p s = Some r \<Longrightarrow> s = p @ r"
  by (auto simp: literal_def prefix_def split: if_splits)

lemma digits1_Some:
  assumes "digits1 s = Some (a, r)"
  shows "s = a @ r \<and> digits a"
proof -
  have a: "a = takeWhile isDigit s" and r: "r = dropWhile isDigit s" and ne: "a \<noteq> []"
    using assms by (auto simp: digits1_def split: if_splits)
  have "\<forall>x\<in>set a. isDigit x"
    unfolding a by (auto dest: set_takeWhileD)
  then show ?thesis
    using a r ne by (simp add: digits_def list_all_iff)
qed

lemma optCount_split: "\<exists>b. countPart b \<and> s = b @ optCount s"
proof (cases s)
  case Nil
  then show ?thesis
    by (simp add: optCount_def countPart_def)
next
  case (Cons c r)
  show ?thesis
  proof (cases "c = CHR '',''")
    case False
    then have "optCount s = s"
      using Cons by (simp add: optCount_def)
    then show ?thesis
      by (intro exI [of _ "[]"]) (simp add: countPart_def)
  next
    case True
    show ?thesis
    proof (cases "digits1 r")
      case None
      then have "optCount s = s"
        using Cons True by (simp add: optCount_def)
      then show ?thesis
        by (intro exI [of _ "[]"]) (simp add: countPart_def)
    next
      case (Some nr)
      obtain n r' where nr: "nr = (n, r')"
        by (cases nr)
      have "r = n @ r' \<and> digits n"
        using Some nr digits1_Some by simp
      moreover have "optCount s = r'"
        using Cons True Some nr by (simp add: optCount_def)
      ultimately show ?thesis
        using Cons True by (intro exI [of _ "CHR '','' # n"]) (simp add: countPart_def)
    qed
  qed
qed

lemma matchHere_Some:
  assumes "matchHere s = Some c"
  shows "\<exists>a b d rest. digits a \<and> countPart b \<and> digits c \<and> countPart d
           \<and> s = hunkHeader a b c d rest"
proof -
  obtain r1 where 1: "literal ''@@ -'' s = Some r1"
    using assms by (auto simp: matchHere_def split: option.splits)
  obtain a r2 where 2: "digits1 r1 = Some (a, r2)"
    using assms 1 by (auto simp: matchHere_def split: option.splits)
  obtain r3 where 3: "literal '' +'' (optCount r2) = Some r3"
    using assms 1 2 by (auto simp: matchHere_def split: option.splits)
  obtain c' r4 where 4: "digits1 r3 = Some (c', r4)"
    using assms 1 2 3 by (auto simp: matchHere_def split: option.splits)
  obtain r5 where 5: "literal '' @@'' (optCount r4) = Some r5"
    using assms 1 2 3 4 by (auto simp: matchHere_def split: option.splits)
  have c: "c' = c"
    using assms 1 2 3 4 5 by (simp add: matchHere_def)
  obtain b where b: "countPart b" "r2 = b @ optCount r2"
    using optCount_split by blast
  obtain d where d: "countPart d" "r4 = d @ optCount r4"
    using optCount_split by blast
  have "s = ''@@ -'' @ r1"
    using 1 by (rule literal_Some)
  also have "r1 = a @ r2"
    using 2 digits1_Some by blast
  also have "r2 = b @ '' +'' @ r3"
    using b(2) literal_Some [OF 3] by simp
  also have "r3 = c @ r4"
    using 4 c digits1_Some by blast
  also have "r4 = d @ '' @@'' @ r5"
    using d(2) literal_Some [OF 5] by simp
  finally have "s = hunkHeader a b c d r5"
    by (simp add: hunkHeader_def)
  moreover have "digits a"
    using 2 digits1_Some by blast
  moreover have "digits c"
    using 4 c digits1_Some by blast
  ultimately show ?thesis
    using b(1) d(1) by blast
qed


lemma matchHere_iff: "matchHere s = Some c \<longleftrightarrow> beginsWithHeader s c"
  using matchHere_Some matchHere_hunkHeader by (auto simp: beginsWithHeader_def)

lemma matchHere_None_iff: "matchHere s = None \<longleftrightarrow> (\<forall>c. \<not> beginsWithHeader s c)"
  using matchHere_iff [of s] by (cases "matchHere s") auto

lemma hunkMatch_iff: "hunkMatch l = Some c \<longleftrightarrow> leftmostHeader l c"
proof (induction l)
  case Nil
  have "matchHere [] = None"
    by (simp add: matchHere_def literal_def)
  then show ?case
    using matchHere_None_iff [of "[]"] by (auto simp: leftmostHeader_def)
next
  case (Cons x xs)
  show ?case
  proof (cases "matchHere (x # xs)")
    case (Some g)
    then have g: "beginsWithHeader (x # xs) g"
      by (simp add: matchHere_iff)
    have "leftmostHeader (x # xs) c \<longleftrightarrow> g = c"
    proof
      assume "leftmostHeader (x # xs) c"
      then obtain pre s where ps: "x # xs = pre @ s" "beginsWithHeader s c"
        "\<forall>i<length pre. \<forall>c'. \<not> beginsWithHeader (drop i (x # xs)) c'"
        by (auto simp: leftmostHeader_def)
      have "pre = []"
      proof (rule ccontr)
        assume "pre \<noteq> []"
        then have "\<not> beginsWithHeader (drop 0 (x # xs)) g"
          using ps(3) by blast
        then show False
          using g by simp
      qed
      then have "matchHere (x # xs) = Some c"
        using ps(1,2) by (simp add: matchHere_iff)
      then show "g = c"
        using Some by simp
    next
      assume "g = c"
      then show "leftmostHeader (x # xs) c"
        unfolding leftmostHeader_def using g
        by (intro exI [of _ "[]"] exI [of _ "x # xs"]) simp
    qed
    then show ?thesis
      using Some by simp
  next
    case None
    then have no: "\<forall>c'. \<not> beginsWithHeader (x # xs) c'"
      by (simp add: matchHere_None_iff)
    have "leftmostHeader (x # xs) c \<longleftrightarrow> leftmostHeader xs c"
    proof
      assume "leftmostHeader (x # xs) c"
      then obtain pre s where ps: "x # xs = pre @ s" "beginsWithHeader s c"
        "\<forall>i<length pre. \<forall>c'. \<not> beginsWithHeader (drop i (x # xs)) c'"
        by (auto simp: leftmostHeader_def)
      have "pre \<noteq> []"
        using ps(1,2) no by auto
      then obtain pre' where pre: "pre = x # pre'"
        using ps(1) by (cases pre) auto
      have "\<forall>i<length pre'. \<forall>c'. \<not> beginsWithHeader (drop i xs) c'"
      proof (intro allI impI)
        fix i c' assume "i < length pre'"
        then have "Suc i < length pre"
          using pre by simp
        then have "\<not> beginsWithHeader (drop (Suc i) (x # xs)) c'"
          using ps(3) by blast
        then show "\<not> beginsWithHeader (drop i xs) c'"
          by simp
      qed
      moreover have "xs = pre' @ s"
        using ps(1) pre by simp
      ultimately show "leftmostHeader xs c"
        unfolding leftmostHeader_def using ps(2)
        by (intro exI [of _ pre'] exI [of _ s]) simp
    next
      assume "leftmostHeader xs c"
      then obtain pre s where ps: "xs = pre @ s" "beginsWithHeader s c"
        "\<forall>i<length pre. \<forall>c'. \<not> beginsWithHeader (drop i xs) c'"
        by (auto simp: leftmostHeader_def)
      have "\<forall>i<length (x # pre). \<forall>c'. \<not> beginsWithHeader (drop i (x # xs)) c'"
      proof (intro allI impI)
        fix i c' assume i: "i < length (x # pre)"
        show "\<not> beginsWithHeader (drop i (x # xs)) c'"
        proof (cases i)
          case 0
          then show ?thesis
            using no by simp
        next
          case (Suc j)
          then show ?thesis
            using ps(3) i by simp
        qed
      qed
      then show "leftmostHeader (x # xs) c"
        unfolding leftmostHeader_def using ps(1,2)
        by (intro exI [of _ "x # pre"] exI [of _ s]) simp
    qed
    then show ?thesis
      using None Cons.IH by simp
  qed
qed

lemma leftmost_holds: "leftmostHeader l c \<Longrightarrow> holdsHeader l"
  by (auto simp: leftmostHeader_def holdsHeader_def)

lemma holds_leftmost:
  assumes "holdsHeader l"
  shows "\<exists>c. leftmostHeader l c"
proof -
  obtain pre s c where ps: "l = pre @ s" "beginsWithHeader s c"
    using assms by (auto simp: holdsHeader_def)
  have "hunkMatch (pre @ s) \<noteq> None"
  proof (induction pre)
    case Nil
    have "matchHere s = Some c"
      using ps(2) by (simp add: matchHere_iff)
    then show ?case
      by (cases s) auto
  next
    case (Cons x xs)
    then show ?case
      by (auto split: option.splits)
  qed
  then show ?thesis
    using ps(1) hunkMatch_iff by auto
qed

lemma hunkMatch_None_iff_holds: "hunkMatch l = None \<longleftrightarrow> \<not> holdsHeader l"
proof
  assume n: "hunkMatch l = None"
  show "\<not> holdsHeader l"
  proof
    assume "holdsHeader l"
    then obtain c where "leftmostHeader l c"
      using holds_leftmost by blast
    then have "hunkMatch l = Some c"
      by (simp add: hunkMatch_iff)
    then show False
      using n by simp
  qed
next
  assume "\<not> holdsHeader l"
  then have "\<forall>c. \<not> leftmostHeader l c"
    using leftmost_holds by blast
  then show "hunkMatch l = None"
    using hunkMatch_iff [of l] by (cases "hunkMatch l") auto
qed

lemma resetsCursor_iff: "resetsCursor l \<longleftrightarrow> startsWith l ''@@'' \<and> holdsHeader l"
  by (simp add: resetsCursor_def hunkMatch_None_iff_holds)

lemma startsWith_hunkHeader: "startsWith (hunkHeader a b c d rest) ''@@''"
  by (simp add: startsWith_def hunkHeader_def)

subsection \<open>Numbers in decimal notation\<close>

lemma decimalValue_snoc: "decimalValue (ds @ [d]) = 10 * decimalValue ds + digitValue d"
  by (simp add: decimalValue_def)

lemma digitChar_digit:
  assumes "d < 10"
  shows "isDigit (digitChar d) \<and> digitValue (digitChar d) = d"
proof -
  have "d \<in> {0, 1, 2, 3, 4, 5, 6, 7, 8, 9}"
    using assms by auto
  then show ?thesis
    by (auto simp: digitChar_def isDigit_def digitValue_def)
qed

lemma decimal_digits: "digits (decimal n)"
proof (induction n rule: decimal.induct)
  case (1 n)
  show ?case
  proof (cases "n < 10")
    case True
    then show ?thesis
      using digitChar_digit [of n] by (simp add: decimal.simps [of n] digits_def)
  next
    case False
    then have "digits (decimal (n div 10))"
      using 1 by simp
    moreover have "isDigit (digitChar (n mod 10))"
      using digitChar_digit [of "n mod 10"] by simp
    ultimately show ?thesis
      using False by (simp add: decimal.simps [of n] digits_def)
  qed
qed

text \<open>The decimal notation of \<open>n\<close> writes \<open>n\<close>.\<close>

lemma decimalValue_decimal: "decimalValue (decimal n) = n"
proof (induction n rule: decimal.induct)
  case (1 n)
  show ?case
  proof (cases "n < 10")
    case True
    then show ?thesis
      using digitChar_digit [of n] by (simp add: decimal.simps [of n] decimalValue_def)
  next
    case False
    then have "decimalValue (decimal (n div 10)) = n div 10"
      using 1 by simp
    moreover have "digitValue (digitChar (n mod 10)) = n mod 10"
      using digitChar_digit [of "n mod 10"] by simp
    ultimately show ?thesis
      using False by (simp add: decimal.simps [of n] decimalValue_snoc)
  qed
qed

text \<open>\<open>parseInt\<close> on a string of digits: the double nearest to the number written.\<close>

lemma parseInt_digits:
  assumes "digits s"
  shows "parseInt s = roundToDouble (decimalValue s)"
proof -
  have all: "takeWhile isDigit s = s"
    using assms by (simp add: digits_def list_all_iff)
  have "s \<noteq> []"
    using assms by (simp add: digits_def)
  then show ?thesis
    unfolding parseInt_def all by simp
qed

lemma parseInt_exact:
  assumes "digits s" and "decimalValue s \<le> 2 ^ 53"
  shows "parseInt s = Num (decimalValue s)"
  using assms by (simp add: parseInt_digits roundToDouble_exact)

subsection \<open>One line\<close>

lemma step_header:
  assumes "startsWith l ''@@''" "hunkMatch l = Some g"
  shows "parseDiff_line l (c, ns) = (parseInt g, ns)"
  using assms by (simp add: parseDiff_line_def)

lemma step_no_header:
  assumes "startsWith l ''@@''" "hunkMatch l = None"
  shows "parseDiff_line l (c, ns) = (c, ns)"
  using assms by (simp add: parseDiff_line_def)

lemma plus_not_at: "startsWith l ''+'' \<Longrightarrow> \<not> startsWith l ''@@''"
  by (cases l) (auto simp: startsWith_def)

lemma step_addition:
  assumes "startsWith l ''+''" "\<not> startsWith l ''+++''"
  shows "parseDiff_line l (c, ns) = (increment c, ns @ [c])"
  using assms plus_not_at [OF assms(1)] by (simp add: parseDiff_line_def)

lemma step_other:
  assumes "\<not> startsWith l ''@@''" "\<not> (startsWith l ''+'' \<and> \<not> startsWith l ''+++'')"
    "\<not> startsWith l [backslash]"
  shows "parseDiff_line l (c, ns) = (increment c, ns)"
  using assms by (simp add: parseDiff_line_def)

lemma step_backslash:
  assumes "startsWith l [backslash]"
  shows "parseDiff_line l (c, ns) = (c, ns)"
proof -
  have "\<not> startsWith l ''@@''" "\<not> startsWith l ''+''"
    using assms by (cases l; auto simp: startsWith_def backslash_def)+
  then show ?thesis
    using assms by (simp add: parseDiff_line_def)
qed

lemma run_snoc:
  "cursorAfter (pre @ [l]) = fst (parseDiff_line l (cursorAfter pre, recorded pre))"
  "recorded (pre @ [l]) = snd (parseDiff_line l (cursorAfter pre, recorded pre))"
  by (simp_all add: cursorAfter_def recorded_def parseDiff_lines_def)

text \<open>
  What one more line does to the cursor and to the record, for every line: a line that
  begins with \<open>@@\<close> sets the cursor to the double nearest to the \<open>c\<close> of the leftmost
  hunk header it holds, and changes nothing when it holds none; an addition records the
  cursor and increments it; a line that begins with a backslash changes nothing; any other
  line increments the cursor.
\<close>

lemma parseDiff_rules:
  "cursorAfter [] = Num 0 \<and> recorded [] = []"
  "startsWith l ''@@'' \<Longrightarrow> leftmostHeader l g \<Longrightarrow>
     cursorAfter (pre @ [l]) = roundToDouble (decimalValue g) \<and> recorded (pre @ [l]) = recorded pre"
  "startsWith l ''@@'' \<Longrightarrow> \<not> holdsHeader l \<Longrightarrow>
     cursorAfter (pre @ [l]) = cursorAfter pre \<and> recorded (pre @ [l]) = recorded pre"
  "startsWith l ''+'' \<Longrightarrow> \<not> startsWith l ''+++'' \<Longrightarrow>
     cursorAfter (pre @ [l]) = increment (cursorAfter pre)
     \<and> recorded (pre @ [l]) = recorded pre @ [cursorAfter pre]"
  "startsWith l [backslash] \<Longrightarrow>
     cursorAfter (pre @ [l]) = cursorAfter pre \<and> recorded (pre @ [l]) = recorded pre"
  "\<not> startsWith l ''@@'' \<Longrightarrow> \<not> (startsWith l ''+'' \<and> \<not> startsWith l ''+++'') \<Longrightarrow>
     \<not> startsWith l [backslash] \<Longrightarrow>
     cursorAfter (pre @ [l]) = increment (cursorAfter pre) \<and> recorded (pre @ [l]) = recorded pre"
proof -
  show "cursorAfter [] = Num 0 \<and> recorded [] = []"
    by (simp add: cursorAfter_def recorded_def parseDiff_lines_def)
  show "cursorAfter (pre @ [l]) = roundToDouble (decimalValue g) \<and> recorded (pre @ [l]) = recorded pre"
    if at: "startsWith l ''@@''" and h: "leftmostHeader l g"
  proof -
    have m: "hunkMatch l = Some g"
      using h by (simp add: hunkMatch_iff)
    have "digits g"
      using h by (auto simp: leftmostHeader_def beginsWithHeader_def)
    then have "parseInt g = roundToDouble (decimalValue g)"
      by (rule parseInt_digits)
    then show ?thesis
      by (simp add: run_snoc step_header [OF at m])
  qed
  show "cursorAfter (pre @ [l]) = cursorAfter pre \<and> recorded (pre @ [l]) = recorded pre"
    if at: "startsWith l ''@@''" and h: "\<not> holdsHeader l"
  proof -
    have "hunkMatch l = None"
      using h by (simp add: hunkMatch_None_iff_holds)
    then show ?thesis
      by (simp add: run_snoc step_no_header [OF at])
  qed
  show "cursorAfter (pre @ [l]) = increment (cursorAfter pre)
     \<and> recorded (pre @ [l]) = recorded pre @ [cursorAfter pre]"
    if "startsWith l ''+''" and "\<not> startsWith l ''+++''"
    using that by (simp add: run_snoc step_addition)
  show "cursorAfter (pre @ [l]) = cursorAfter pre \<and> recorded (pre @ [l]) = recorded pre"
    if "startsWith l [backslash]"
    using that by (simp add: run_snoc step_backslash)
  show "cursorAfter (pre @ [l]) = increment (cursorAfter pre) \<and> recorded (pre @ [l]) = recorded pre"
    if "\<not> startsWith l ''@@''" and "\<not> (startsWith l ''+'' \<and> \<not> startsWith l ''+++'')"
      and "\<not> startsWith l [backslash]"
    using that by (simp add: run_snoc step_other)
qed

lemma parseDiff_from_Nil: "parseDiff_from st [] = st"
  by (simp add: parseDiff_from_def)

lemma parseDiff_from_Cons:
  "parseDiff_from st (l # ls) = parseDiff_from (parseDiff_line l st) ls"
  by (simp add: parseDiff_from_def)

lemma parseDiff_lines_append:
  "parseDiff_lines (xs @ ys) = parseDiff_from (parseDiff_lines xs) ys"
  by (simp add: parseDiff_lines_def parseDiff_from_def)

lemma parseDiff_lines_from: "parseDiff_lines ls = parseDiff_from (Num 0, []) ls"
  by (simp add: parseDiff_lines_def parseDiff_from_def)

subsection \<open>The three rules on a diff\<close>

lemma stated_from_Nil: "stated_from st [] = st"
  by (simp add: stated_from_def)

lemma stated_from_Cons: "stated_from st (l # ls) = stated_from (stated_line l st) ls"
  by (simp add: stated_from_def)

lemma matchHere_startsWith:
  assumes "matchHere l = Some c"
  shows "startsWith l ''@@''"
proof -
  obtain a b d rest where "l = hunkHeader a b c d rest"
    using matchHere_Some [OF assms] by blast
  then show ?thesis
    by (simp add: startsWith_hunkHeader)
qed

text \<open>
  One line, read by \<open>parseDiff\<close> and by the three rules from the same cursor, when the
  numbers are small enough to be exact.
\<close>

lemma line_refines:
  assumes "startsWith l ''@@'' \<longrightarrow> (\<exists>c. beginsWithHeader l c)"
    and "s < 2 ^ 53"
    and "\<forall>c. beginsWithHeader l c \<longrightarrow> decimalValue c \<le> 2 ^ 53"
  shows "parseDiff_line l (Num s, map Num acc)
           = (Num (fst (stated_line l (s, acc))), map Num (snd (stated_line l (s, acc))))"
proof (cases "matchHere l")
  case (Some c)
  then have h: "beginsWithHeader l c"
    by (simp add: matchHere_iff)
  then have "digits c"
    by (auto simp: beginsWithHeader_def)
  moreover have "decimalValue c \<le> 2 ^ 53"
    using h assms(3) by blast
  ultimately have "parseInt c = Num (decimalValue c)"
    by (rule parseInt_exact)
  moreover have "hunkMatch l = Some c"
    using Some by (rule hunkMatch_here)
  moreover have "startsWith l ''@@''"
    using Some by (rule matchHere_startsWith)
  ultimately show ?thesis
    using Some by (simp add: parseDiff_line_def stated_line_def)
next
  case None
  then have "\<not> startsWith l ''@@''"
    using assms(1) by (auto simp: matchHere_None_iff)
  moreover have "increment (Num s) = Num (s + 1)"
    using assms(2) by (rule increment_exact)
  ultimately show ?thesis
    using None by (simp add: parseDiff_line_def stated_line_def)
qed

text \<open>The cursor of the three rules after one line.\<close>

lemma stated_line_cursor:
  "fst (stated_line l (s, acc)) \<le> s + 1
   \<or> (\<exists>c. beginsWithHeader l c \<and> fst (stated_line l (s, acc)) = decimalValue c)"
proof (cases "matchHere l")
  case None
  then show ?thesis
    by (simp add: stated_line_def)
next
  case (Some c)
  then have "beginsWithHeader l c"
    by (simp add: matchHere_iff)
  then show ?thesis
    using Some by (auto simp: stated_line_def)
qed

lemma run_refines:
  assumes "\<forall>l\<in>set ls. startsWith l ''@@'' \<longrightarrow> (\<exists>c. beginsWithHeader l c)"
    and "s + length ls \<le> 2 ^ 53"
    and "\<forall>l\<in>set ls. \<forall>c. beginsWithHeader l c \<longrightarrow> decimalValue c + length ls \<le> 2 ^ 53"
  shows "parseDiff_from (Num s, map Num acc) ls
           = (Num (fst (stated_from (s, acc) ls)), map Num (snd (stated_from (s, acc) ls)))"
  using assms
proof (induction ls arbitrary: s acc)
  case Nil
  show ?case
    by (simp add: parseDiff_from_Nil stated_from_Nil)
next
  case (Cons l ls)
  define s' where "s' = fst (stated_line l (s, acc))"
  define acc' where "acc' = snd (stated_line l (s, acc))"
  have st: "stated_line l (s, acc) = (s', acc')"
    by (simp add: s'_def acc'_def)
  have wf: "startsWith l ''@@'' \<longrightarrow> (\<exists>c. beginsWithHeader l c)"
    using Cons.prems(1) by simp
  have small: "s < 2 ^ 53"
    using Cons.prems(2) by simp
  have heads: "\<forall>c. beginsWithHeader l c \<longrightarrow> decimalValue c + Suc (length ls) \<le> 2 ^ 53"
    using Cons.prems(3) by simp
  then have head: "\<forall>c. beginsWithHeader l c \<longrightarrow> decimalValue c \<le> 2 ^ 53"
    by auto
  have one: "parseDiff_line l (Num s, map Num acc) = (Num s', map Num acc')"
    using line_refines [OF wf small head] by (simp add: s'_def acc'_def)
  have "s' \<le> s + 1 \<or> (\<exists>c. beginsWithHeader l c \<and> s' = decimalValue c)"
    unfolding s'_def by (rule stated_line_cursor)
  then have bound: "s' + length ls \<le> 2 ^ 53"
    using Cons.prems(2) heads by auto
  have rest1: "\<forall>l\<in>set ls. startsWith l ''@@'' \<longrightarrow> (\<exists>c. beginsWithHeader l c)"
    using Cons.prems(1) by simp
  have rest3: "\<forall>l\<in>set ls. \<forall>c. beginsWithHeader l c \<longrightarrow> decimalValue c + length ls \<le> 2 ^ 53"
  proof (intro ballI allI impI)
    fix l' c
    assume "l' \<in> set ls" and "beginsWithHeader l' c"
    then have "decimalValue c + length (l # ls) \<le> 2 ^ 53"
      using Cons.prems(3) by simp
    then show "decimalValue c + length ls \<le> 2 ^ 53"
      by simp
  qed
  show ?case
    using Cons.IH [OF rest1 bound rest3, of acc'] one st
    by (simp add: parseDiff_from_Cons stated_from_Cons)
qed

subsection \<open>The claim\<close>

text \<open>
  C1. On the lines of a unified diff, where every line that begins with \<open>@@\<close> begins with
  a hunk header \<open>@@ -a[,b] +c[,d] @@\<close>, and with line numbers in the range in which
  JavaScript counts exactly (every hunk start and as many lines as the diff has remain at
  most \<open>2^53\<close>), \<open>parseDiff\<close> returns the numbers that the stated cursor algorithm
  records: the cursor starts at 0; a hunk header sets it to \<open>c\<close>; a line that begins with
  \<open>+\<close> but not with \<open>+++\<close> records the cursor and then increments it; any other line
  that does not begin with a backslash increments it without recording. For the lines
  \<open>@@ -5,2 +5,3 @@\<close>, \<open> ctx\<close>, \<open>+added1\<close>, \<open>+added2\<close> it returns exactly
  \<open>[6, 7]\<close>.
\<close>

theorem parseDiff_cursor_algorithm:
  assumes "headersWellFormed (split_on newline diffOutput)"
    and "withinExactRange (split_on newline diffOutput)"
  shows "parseDiff diffOutput = map Num (stated_parseDiff diffOutput)
         \<and> parseDiff (unlines [''@@ -5,2 +5,3 @@'', '' ctx'', ''+added1'', ''+added2''])
             = [Num 6, Num 7]"
proof -
  have "parseDiff_from (Num 0, map Num []) (split_on newline diffOutput)
          = (Num (fst (stated_from (0, []) (split_on newline diffOutput))),
             map Num (snd (stated_from (0, []) (split_on newline diffOutput))))"
    using assms by (intro run_refines) (auto simp: headersWellFormed_def withinExactRange_def)
  then have "parseDiff diffOutput = map Num (stated_parseDiff diffOutput)"
    by (simp add: parseDiff_def parseDiff_lines_from stated_parseDiff_def)
  moreover have
    "parseDiff (unlines [''@@ -5,2 +5,3 @@'', '' ctx'', ''+added1'', ''+added2''])
       = [Num 6, Num 7]"
    by (simp add: parseDiff_eval)
  ultimately show ?thesis
    by simp
qed

text \<open>
  The theorem on a diff of two hunks with a removed line, added lines, a context line and
  the marker of a missing newline: the hypotheses hold, and both sides are \<open>[4, 5, 9]\<close>.
\<close>

theorem parseDiff_cursor_algorithm_witness:
  "headersWellFormed
     (split_on newline
        (unlines [''@@ -3 +3,2 @@ f(x)'', ''-old'', ''+a'', ''+b'',
                  backslash # '' No newline at end of file'', ''@@ -7,0 +8,2 @@'', '' ctx'', ''+c'']))
   \<and> withinExactRange
     (split_on newline
        (unlines [''@@ -3 +3,2 @@ f(x)'', ''-old'', ''+a'', ''+b'',
                  backslash # '' No newline at end of file'', ''@@ -7,0 +8,2 @@'', '' ctx'', ''+c'']))
   \<and> stated_parseDiff
        (unlines [''@@ -3 +3,2 @@ f(x)'', ''-old'', ''+a'', ''+b'',
                  backslash # '' No newline at end of file'', ''@@ -7,0 +8,2 @@'', '' ctx'', ''+c''])
      = [4, 5, 9]
   \<and> parseDiff
        (unlines [''@@ -3 +3,2 @@ f(x)'', ''-old'', ''+a'', ''+b'',
                  backslash # '' No newline at end of file'', ''@@ -7,0 +8,2 @@'', '' ctx'', ''+c''])
      = [Num 4, Num 5, Num 9]"
proof -
  let ?d = "unlines [''@@ -3 +3,2 @@ f(x)'', ''-old'', ''+a'', ''+b'',
                  backslash # '' No newline at end of file'', ''@@ -7,0 +8,2 @@'', '' ctx'', ''+c'']"
  have wf: "headersWellFormed (split_on newline ?d)"
    by (simp add: headersWellFormed_def matchHere_iff [symmetric] parseDiff_eval)
  have range: "withinExactRange (split_on newline ?d)"
    by (simp add: withinExactRange_def matchHere_iff [symmetric] parseDiff_eval)
  have stated: "stated_parseDiff ?d = [4, 5, 9]"
    by (simp add: stated_parseDiff_def stated_from_def stated_line_def parseDiff_eval)
  show ?thesis
    using parseDiff_cursor_algorithm [OF wf range] wf range stated by simp
qed

text \<open>
  Outside diffs the three rules and \<open>parseDiff\<close> differ: a line that begins with \<open>@@\<close>
  and holds no hunk header is left alone by \<open>parseDiff\<close> and counted by the three rules.
\<close>

lemma parseDiff_line_without_header:
  "parseDiff (unlines [''@@ x'', ''+y'']) = [Num 0]
   \<and> stated_parseDiff (unlines [''@@ x'', ''+y'']) = [1]"
  by (simp add: parseDiff_eval stated_parseDiff_def stated_from_def stated_line_def)

section \<open>parseDiff: the numbers of one hunk\<close>

text \<open>A line only appends to the record.\<close>

lemma step_appends: "\<exists>c' new. parseDiff_line l (c, ns) = (c', ns @ new)"
  by (auto simp: parseDiff_line_def split: option.splits)

lemma from_appends: "\<exists>c' new. parseDiff_from (c, ns) ls = (c', ns @ new)"
proof (induction ls arbitrary: c ns)
  case Nil
  show ?case
    by (simp add: parseDiff_from_Nil)
next
  case (Cons l ls)
  obtain c1 new1 where 1: "parseDiff_line l (c, ns) = (c1, ns @ new1)"
    using step_appends by blast
  obtain c2 new2 where 2: "parseDiff_from (c1, ns @ new1) ls = (c2, (ns @ new1) @ new2)"
    using Cons.IH by blast
  show ?case
    using 1 2 by (simp add: parseDiff_from_Cons)
qed

text \<open>A line that does not set the cursor anew leaves it or increments it.\<close>

lemma step_no_reset:
  assumes "\<not> resetsCursor l"
  shows "parseDiff_line l (c, ns) = (c, ns) \<or> parseDiff_line l (c, ns) = (increment c, ns)
         \<or> parseDiff_line l (c, ns) = (increment c, ns @ [c])"
  using assms by (auto simp: parseDiff_line_def resetsCursor_def split: option.splits)

text \<open>The cursor is a double at every moment.\<close>

lemma hunkMatch_digits:
  assumes "hunkMatch l = Some g"
  shows "digits g"
proof -
  have "leftmostHeader l g"
    using assms by (simp add: hunkMatch_iff)
  then show ?thesis
    by (auto simp: leftmostHeader_def beginsWithHeader_def)
qed

lemma step_isDouble:
  assumes "isDouble c"
  shows "isDouble (fst (parseDiff_line l (c, ns)))"
proof (cases "startsWith l ''@@''")
  case True
  show ?thesis
  proof (cases "hunkMatch l")
    case None
    then show ?thesis
      using True assms by (simp add: step_no_header)
  next
    case (Some g)
    then have "parseInt g = roundToDouble (decimalValue g)"
      by (intro parseInt_digits hunkMatch_digits)
    then show ?thesis
      using True Some by (simp add: step_header isDouble_roundToDouble)
  qed
next
  case False
  then show ?thesis
    using assms isDouble_increment [OF assms] by (simp add: parseDiff_line_def)
qed

lemma cursor_isDouble: "isDouble (cursorAfter pre)"
proof (induction pre rule: rev_induct)
  case Nil
  show ?case
    using isDouble_zero by (simp add: cursorAfter_def parseDiff_lines_def)
next
  case (snoc l pre)
  then show ?case
    by (simp add: run_snoc step_isDouble)
qed

text \<open>
  The invariant of the loop between two resets: the cursor does not fall, what is recorded
  does not fall either, and it rises from one number to the next as long as the numbers are
  exact.
\<close>

lemma from_monotone:
  assumes "\<forall>l\<in>set seg. \<not> resetsCursor l" and "isDouble c"
  shows "\<exists>c' new. parseDiff_from (c, ns) seg = (c', ns @ new) \<and> isDouble c' \<and> notAbove c c'
           \<and> sorted_wrt notAbove new \<and> (\<forall>x\<in>set new. notAbove c x)
           \<and> ((\<forall>x\<in>set new. exact x) \<longrightarrow> sorted_wrt below new)"
  using assms
proof (induction seg arbitrary: c ns)
  case Nil
  have "parseDiff_from (c, ns) [] = (c, ns @ [])"
    by (simp add: parseDiff_from_Nil)
  moreover have "notAbove c c"
    using Nil.prems(2) by (rule notAbove_refl)
  ultimately show ?case
    using Nil.prems(2) by (intro exI [of _ c] exI [of _ "[]"]) simp
next
  case (Cons l ls)
  have nr: "\<not> resetsCursor l" and rest: "\<forall>l\<in>set ls. \<not> resetsCursor l"
    using Cons.prems(1) by auto
  have inc: "isDouble (increment c)" "notAbove c (increment c)"
    using isDouble_increment [OF Cons.prems(2)] by auto
  consider (same) "parseDiff_line l (c, ns) = (c, ns)"
    | (skip) "parseDiff_line l (c, ns) = (increment c, ns)"
    | (add) "parseDiff_line l (c, ns) = (increment c, ns @ [c])"
    using step_no_reset [OF nr] by blast
  then show ?case
  proof cases
    case same
    then have "parseDiff_from (c, ns) (l # ls) = parseDiff_from (c, ns) ls"
      by (simp add: parseDiff_from_Cons)
    then show ?thesis
      using Cons.IH [OF rest Cons.prems(2), of ns] by simp
  next
    case skip
    obtain c' new where h: "parseDiff_from (increment c, ns) ls = (c', ns @ new)"
      "isDouble c'" "notAbove (increment c) c'" "sorted_wrt notAbove new"
      "\<forall>x\<in>set new. notAbove (increment c) x"
      "(\<forall>x\<in>set new. exact x) \<longrightarrow> sorted_wrt below new"
      using Cons.IH [OF rest inc(1), of ns] by blast
    have "parseDiff_from (c, ns) (l # ls) = (c', ns @ new)"
      using skip h(1) by (simp add: parseDiff_from_Cons)
    moreover have "notAbove c c'"
      using inc(2) h(3) by (rule notAbove_trans)
    moreover have "\<forall>x\<in>set new. notAbove c x"
      using inc(2) h(5) notAbove_trans by blast
    ultimately show ?thesis
      using h(2,4,6) by blast
  next
    case add
    obtain c' new where h: "parseDiff_from (increment c, ns @ [c]) ls = (c', (ns @ [c]) @ new)"
      "isDouble c'" "notAbove (increment c) c'" "sorted_wrt notAbove new"
      "\<forall>x\<in>set new. notAbove (increment c) x"
      "(\<forall>x\<in>set new. exact x) \<longrightarrow> sorted_wrt below new"
      using Cons.IH [OF rest inc(1), of "ns @ [c]"] by blast
    have above: "\<forall>x\<in>set new. notAbove c x"
      using inc(2) h(5) notAbove_trans by blast
    have 1: "parseDiff_from (c, ns) (l # ls) = (c', ns @ (c # new))"
      using add h(1) by (simp add: parseDiff_from_Cons)
    have 2: "notAbove c c'"
      using inc(2) h(3) by (rule notAbove_trans)
    have 3: "sorted_wrt notAbove (c # new)"
      using h(4) above by simp
    have 4: "\<forall>x\<in>set (c # new). notAbove c x"
      using above notAbove_refl [OF Cons.prems(2)] by simp
    have 5: "(\<forall>x\<in>set (c # new). exact x) \<longrightarrow> sorted_wrt below (c # new)"
    proof
      assume ex: "\<forall>x\<in>set (c # new). exact x"
      then have "exact c"
        by simp
      then have "\<forall>x\<in>set new. below c x"
        using h(5) below_increment by blast
      then show "sorted_wrt below (c # new)"
        using h(6) ex by simp
    qed
    show ?thesis
      using 1 2 3 4 5 h(2) by blast
  qed
qed

lemma recordedDuring_eq:
  assumes "parseDiff_from (parseDiff_lines pre) seg = (c', recorded pre @ new)"
  shows "recordedDuring pre seg = new"
  using assms by (simp add: recordedDuring_def recorded_def parseDiff_lines_append)

lemma recorded_append: "recorded (pre @ seg) = recorded pre @ recordedDuring pre seg"
proof -
  obtain c' new where
    "parseDiff_from (cursorAfter pre, recorded pre) seg = (c', recorded pre @ new)"
    using from_appends by blast
  then have *: "parseDiff_from (parseDiff_lines pre) seg = (c', recorded pre @ new)"
    by (simp add: cursorAfter_def recorded_def)
  then have "recorded (pre @ seg) = recorded pre @ new"
    by (simp add: recorded_def parseDiff_lines_append)
  then show ?thesis
    using recordedDuring_eq [OF *] by simp
qed

subsection \<open>The claim\<close>

text \<open>
  C10, as it is stated, speaks of every input string. The cursor is a double: at
  \<open>2^53\<close>, adding one to it gives the same double again. On the lines
  \<open>@@ -1 +9007199254740992 @@\<close>, \<open>+a\<close>, \<open>+b\<close>, \<open>+c\<close> no line after the header
  sets the cursor anew, and \<open>parseDiff\<close> records \<open>2^53\<close> three times: the numbers
  recorded after the header are not strictly increasing.
\<close>

theorem parseDiff_increasing_counterexample:
  "split_on newline (unlines [''@@ -1 +9007199254740992 @@'', ''+a'', ''+b'', ''+c''])
     = [''@@ -1 +9007199254740992 @@''] @ [''+a'', ''+b'', ''+c''] @ []
   \<and> \<not> resetsCursor ''+a'' \<and> \<not> resetsCursor ''+b'' \<and> \<not> resetsCursor ''+c''
   \<and> parseDiff (unlines [''@@ -1 +9007199254740992 @@'', ''+a'', ''+b'', ''+c''])
       = [Num 9007199254740992, Num 9007199254740992, Num 9007199254740992]
   \<and> recordedDuring [''@@ -1 +9007199254740992 @@''] [''+a'', ''+b'', ''+c'']
       = [Num 9007199254740992, Num 9007199254740992, Num 9007199254740992]
   \<and> \<not> sorted_wrt below
         (recordedDuring [''@@ -1 +9007199254740992 @@''] [''+a'', ''+b'', ''+c''])"
proof -
  have cursor: "cursorAfter [''@@ -1 +9007199254740992 @@''] = Num 9007199254740992"
    by (simp add: parseDiff_eval bitLength.simps Let_def)
  have before: "recorded [''@@ -1 +9007199254740992 @@''] = []"
    by (simp add: parseDiff_eval)
  have a: "recorded [''@@ -1 +9007199254740992 @@'', ''+a''] = [Num 9007199254740992]"
    and ca: "cursorAfter [''@@ -1 +9007199254740992 @@'', ''+a''] = Num 9007199254740992"
    using run_snoc [of "[''@@ -1 +9007199254740992 @@'']" "''+a''"] cursor before
    by (simp_all add: step_addition startsWith_def increment_limit)
  have b: "recorded [''@@ -1 +9007199254740992 @@'', ''+a'', ''+b'']
             = [Num 9007199254740992, Num 9007199254740992]"
    and cb: "cursorAfter [''@@ -1 +9007199254740992 @@'', ''+a'', ''+b'']
             = Num 9007199254740992"
    using run_snoc [of "[''@@ -1 +9007199254740992 @@'', ''+a'']" "''+b''"] ca a
    by (simp_all add: step_addition startsWith_def increment_limit)
  have c: "recorded [''@@ -1 +9007199254740992 @@'', ''+a'', ''+b'', ''+c'']
             = [Num 9007199254740992, Num 9007199254740992, Num 9007199254740992]"
    using run_snoc [of "[''@@ -1 +9007199254740992 @@'', ''+a'', ''+b'']" "''+c''"] cb b
    by (simp add: step_addition startsWith_def increment_limit)
  have split: "split_on newline (unlines [''@@ -1 +9007199254740992 @@'', ''+a'', ''+b'', ''+c''])
     = [''@@ -1 +9007199254740992 @@'', ''+a'', ''+b'', ''+c'']"
    by (simp add: unlines_def newline_def)
  have quiet: "\<not> resetsCursor ''+a'' \<and> \<not> resetsCursor ''+b'' \<and> \<not> resetsCursor ''+c''"
    by (simp add: resetsCursor_def startsWith_def)
  have during: "recordedDuring [''@@ -1 +9007199254740992 @@''] [''+a'', ''+b'', ''+c'']
       = [Num 9007199254740992, Num 9007199254740992, Num 9007199254740992]"
    using before c by (simp add: recordedDuring_def)
  have whole: "parseDiff (unlines [''@@ -1 +9007199254740992 @@'', ''+a'', ''+b'', ''+c''])
       = [Num 9007199254740992, Num 9007199254740992, Num 9007199254740992]"
    using split c by (simp add: parseDiff_def recorded_def)
  show ?thesis
    using split quiet during whole by simp
qed

text \<open>
  C10, amended. Let the lines of any input string be \<open>pre\<close>, then \<open>seg\<close>, then
  \<open>post\<close>, with no line in \<open>seg\<close> at which the cursor is set anew: \<open>seg\<close> is a stretch
  between one hunk header (the last line of \<open>pre\<close>, if there is one) and the next (the
  first line of \<open>post\<close>) or the end of the input. The result of \<open>parseDiff\<close> is what it
  recorded during \<open>pre\<close>, then during \<open>seg\<close>, then during \<open>post\<close>. The numbers
  recorded during \<open>seg\<close> never decrease, and they are strictly increasing when all of them
  are below \<open>2^53\<close>.
\<close>

theorem parseDiff_increasing_within_hunk:
  assumes "split_on newline diffOutput = pre @ seg @ post"
    and "\<forall>line\<in>set seg. \<not> resetsCursor line"
  shows "parseDiff diffOutput
           = recorded pre @ recordedDuring pre seg @ recordedDuring (pre @ seg) post
         \<and> sorted_wrt notAbove (recordedDuring pre seg)
         \<and> ((\<forall>x\<in>set (recordedDuring pre seg). exact x)
              \<longrightarrow> sorted_wrt below (recordedDuring pre seg))"
proof -
  obtain c' new where
    run: "parseDiff_from (cursorAfter pre, recorded pre) seg = (c', recorded pre @ new)"
    and weak: "sorted_wrt notAbove new"
    and strict: "(\<forall>x\<in>set new. exact x) \<longrightarrow> sorted_wrt below new"
    using from_monotone [OF assms(2) cursor_isDouble] by blast
  have "parseDiff_from (parseDiff_lines pre) seg = (c', recorded pre @ new)"
    using run by (simp add: cursorAfter_def recorded_def)
  then have new: "recordedDuring pre seg = new"
    by (rule recordedDuring_eq)
  have "parseDiff diffOutput = recorded ((pre @ seg) @ post)"
    using assms(1) by (simp add: parseDiff_def recorded_def)
  also have "\<dots> = recorded (pre @ seg) @ recordedDuring (pre @ seg) post"
    by (rule recorded_append)
  also have "\<dots> = (recorded pre @ recordedDuring pre seg) @ recordedDuring (pre @ seg) post"
    by (simp add: recorded_append)
  finally show ?thesis
    using weak strict new by simp
qed

text \<open>
  The theorem on a diff of two hunks, the first with a removed line, two added lines, a
  line \<open>@@ x\<close> that is no header, and a third added line.
\<close>

theorem parseDiff_increasing_within_hunk_witness:
  "split_on newline
     (unlines [''@@ -3 +3,3 @@'', ''-old'', ''+a'', ''+b'', ''@@ x'', ''+c'', ''@@ -9,0 +2 @@'', ''+d''])
     = [''@@ -3 +3,3 @@''] @ [''-old'', ''+a'', ''+b'', ''@@ x'', ''+c'']
         @ [''@@ -9,0 +2 @@'', ''+d'']
   \<and> \<not> resetsCursor ''-old'' \<and> \<not> resetsCursor ''+a'' \<and> \<not> resetsCursor ''+b''
   \<and> \<not> resetsCursor ''@@ x'' \<and> \<not> resetsCursor ''+c''
   \<and> recordedDuring [''@@ -3 +3,3 @@''] [''-old'', ''+a'', ''+b'', ''@@ x'', ''+c'']
       = [Num 4, Num 5, Num 6]
   \<and> exact (Num 4) \<and> exact (Num 5) \<and> exact (Num 6)
   \<and> sorted_wrt notAbove
       (recordedDuring [''@@ -3 +3,3 @@''] [''-old'', ''+a'', ''+b'', ''@@ x'', ''+c''])
   \<and> sorted_wrt below
       (recordedDuring [''@@ -3 +3,3 @@''] [''-old'', ''+a'', ''+b'', ''@@ x'', ''+c''])
   \<and> parseDiff
       (unlines [''@@ -3 +3,3 @@'', ''-old'', ''+a'', ''+b'', ''@@ x'', ''+c'', ''@@ -9,0 +2 @@'', ''+d''])
     = [Num 4, Num 5, Num 6, Num 2]"
proof -
  have split: "split_on newline
     (unlines [''@@ -3 +3,3 @@'', ''-old'', ''+a'', ''+b'', ''@@ x'', ''+c'', ''@@ -9,0 +2 @@'', ''+d''])
     = [''@@ -3 +3,3 @@''] @ [''-old'', ''+a'', ''+b'', ''@@ x'', ''+c'']
         @ [''@@ -9,0 +2 @@'', ''+d'']"
    by (simp add: unlines_def newline_def)
  have quiet: "\<forall>line\<in>set [''-old'', ''+a'', ''+b'', ''@@ x'', ''+c'']. \<not> resetsCursor line"
    by (simp add: resetsCursor_def parseDiff_eval)
  have during:
    "recordedDuring [''@@ -3 +3,3 @@''] [''-old'', ''+a'', ''+b'', ''@@ x'', ''+c'']
       = [Num 4, Num 5, Num 6]"
    by (simp add: recordedDuring_def parseDiff_eval)
  have after: "recordedDuring ([''@@ -3 +3,3 @@''] @ [''-old'', ''+a'', ''+b'', ''@@ x'', ''+c''])
      [''@@ -9,0 +2 @@'', ''+d''] = [Num 2]"
    by (simp add: recordedDuring_def parseDiff_eval)
  have before: "recorded [''@@ -3 +3,3 @@''] = []"
    by (simp add: parseDiff_eval)
  show ?thesis
    using parseDiff_increasing_within_hunk [OF split quiet] split quiet during after before
    by simp
qed

section \<open>getUpdatedTestCases: ranges that hold a changed line\<close>

text \<open>
  C2. For every list of test-case ranges and every list of changed line numbers, a test
  case \<open>{start, end}\<close> is among the updated ones if and only if it is among the test cases
  and some changed line \<open>L\<close> has \<open>start \<le> L \<le> end\<close>; the updated test cases are
  the test cases with this property, in their order. For the test case \<open>{start: 10, end: 20}\<close>
  the changed line 19 makes it updated, 21 does not, and 10 and 20 each do.
\<close>

theorem getUpdatedTestCases_inclusive:
  "(testCase \<in> set (getUpdatedTestCases testCases updateLines) \<longleftrightarrow>
      testCase \<in> set testCases
      \<and> (\<exists>L\<in>set updateLines. start testCase \<le> L \<and> L \<le> end' testCase))
   \<and> getUpdatedTestCases testCases updateLines
       = filter (\<lambda>t. \<exists>L\<in>set updateLines. start t \<le> L \<and> L \<le> end' t) testCases
   \<and> getUpdatedTestCases [\<lparr>start = 10, end' = 20\<rparr>] [19] = [\<lparr>start = 10, end' = 20\<rparr>]
   \<and> getUpdatedTestCases [\<lparr>start = 10, end' = 20\<rparr>] [21] = []
   \<and> getUpdatedTestCases [\<lparr>start = 10, end' = 20\<rparr>] [10] = [\<lparr>start = 10, end' = 20\<rparr>]
   \<and> getUpdatedTestCases [\<lparr>start = 10, end' = 20\<rparr>] [20] = [\<lparr>start = 10, end' = 20\<rparr>]"
  by (auto simp: getUpdatedTestCases_def list_ex_iff)

text \<open>Three test cases and the changed lines 9, 21, 30 and 31: only the third is updated.\<close>

theorem getUpdatedTestCases_inclusive_witness:
  "getUpdatedTestCases
     [\<lparr>start = 1, end' = 3\<rparr>, \<lparr>start = 10, end' = 20\<rparr>, \<lparr>start = 22, end' = 30\<rparr>]
     [9, 21, 30, 31]
     = [\<lparr>start = 22, end' = 30\<rparr>]
   \<and> \<lparr>start = 10, end' = 20\<rparr> \<notin> set (getUpdatedTestCases
         [\<lparr>start = 1, end' = 3\<rparr>, \<lparr>start = 10, end' = 20\<rparr>, \<lparr>start = 22, end' = 30\<rparr>]
         [9, 21, 30, 31])"
  using getUpdatedTestCases_inclusive
    [of "\<lparr>start = 10, end' = 20\<rparr>"
        "[\<lparr>start = 1, end' = 3\<rparr>, \<lparr>start = 10, end' = 20\<rparr>, \<lparr>start = 22, end' = 30\<rparr>]"
        "[9, 21, 30, 31]"]
  by simp

section \<open>getCommits: the union of three methods\<close>

subsection \<open>Sets as lists\<close>

lemma set_set_add: "set (set_add x s) = insert x (set s)"
  by (auto simp: set_add_def)

lemma distinct_set_add: "distinct s \<Longrightarrow> distinct (set_add x s)"
  by (simp add: set_add_def)



subsection \<open>Splitting and trimming\<close>

lemma split_on_nonempty: "split_on sep s \<noteq> []"
  by (induction s) (auto split: list.splits)

lemma split_on_append:
  "sep \<notin> set a \<Longrightarrow> split_on sep (a @ sep # r) = a # split_on sep r"
  by (induction a) (auto split: list.splits)

lemma trim_Nil: "trim [] = []"
  by (simp add: trim_def)


subsection \<open>The accumulation\<close>









subsection \<open>Jane Doe and Doe, Jane\<close>








subsection \<open>The claim\<close>



section \<open>getCommits: the window of its queries\<close>








section \<open>getTestCaseFiles: the five patterns\<close>

text \<open>
  C5. For every file path, \<open>getTestCaseFiles\<close> keeps the path if and only if minimatch
  matches it against one at least of the five patterns \<open>**/*.spec.js\<close>,
  \<open>**/*.test.js\<close>, \<open>**/*.test.tsx\<close>, \<open>**/*.test.jsx\<close> and \<open>**/*.test.ts\<close>; the
  paths kept stay in their order. Of the paths \<open>src/foo.test.ts\<close>, \<open>src/bar.spec.js\<close>,
  \<open>src/foo.ts\<close> and \<open>src/foo.testx.js\<close> the first two are kept and the last two are not.
\<close>

theorem getTestCaseFiles_five_patterns:
  "(file \<in> set (getTestCaseFiles files) \<longleftrightarrow>
      file \<in> set files \<and> (\<exists>pattern\<in>set testPatterns. minimatch file pattern))
   \<and> getTestCaseFiles files
       = filter (\<lambda>f. \<exists>pattern\<in>set testPatterns. minimatch f pattern) files
   \<and> getTestCaseFiles
        [''src/foo.test.ts'', ''src/bar.spec.js'', ''src/foo.ts'', ''src/foo.testx.js'']
       = [''src/foo.test.ts'', ''src/bar.spec.js'']"
proof -
  have A: "getTestCaseFiles files
       = filter (\<lambda>f. \<exists>pattern\<in>set testPatterns. minimatch f pattern) files"
    by (simp add: getTestCaseFiles_def testPatterns_def)
  have B: "getTestCaseFiles
        [''src/foo.test.ts'', ''src/bar.spec.js'', ''src/foo.ts'', ''src/foo.testx.js'']
       = [''src/foo.test.ts'', ''src/bar.spec.js'']"
    by code_simp
  show ?thesis
    using A B by auto
qed

text \<open>
  The theorem on the files of the example repository and some more: a test file at the top
  of the repository and one in nested directories are kept; a file in a directory whose name
  starts with a dot is not, nor is a file that is named by the extension alone.
\<close>

theorem getTestCaseFiles_five_patterns_witness:
  "getTestCaseFiles
     [''src/a.test.js'', ''src/b.js'', ''README.md'', ''a.spec.js'', ''x/y/z/c.test.tsx'',
      ''.cache/d.test.js'', ''src/.test.js'', ''src/e.test.jsx'', ''src/f.spec.ts'']
     = [''src/a.test.js'', ''a.spec.js'', ''x/y/z/c.test.tsx'', ''src/e.test.jsx'']
   \<and> ''src/a.test.js'' \<in> set (getTestCaseFiles
         [''src/a.test.js'', ''src/b.js'', ''README.md'', ''a.spec.js'', ''x/y/z/c.test.tsx'',
          ''.cache/d.test.js'', ''src/.test.js'', ''src/e.test.jsx'', ''src/f.spec.ts''])
   \<and> minimatch ''src/a.test.js'' ''**/*.test.js''
   \<and> \<not> minimatch ''src/a.test.js'' ''**/*.spec.js''"
proof -
  have 1: "getTestCaseFiles
     [''src/a.test.js'', ''src/b.js'', ''README.md'', ''a.spec.js'', ''x/y/z/c.test.tsx'',
      ''.cache/d.test.js'', ''src/.test.js'', ''src/e.test.jsx'', ''src/f.spec.ts'']
     = [''src/a.test.js'', ''a.spec.js'', ''x/y/z/c.test.tsx'', ''src/e.test.jsx'']"
    by code_simp
  have 2: "minimatch ''src/a.test.js'' ''**/*.test.js''"
    by code_simp
  have 3: "\<not> minimatch ''src/a.test.js'' ''**/*.spec.js''"
    by code_simp
  show ?thesis
    using getTestCaseFiles_five_patterns
      [of "''src/a.test.js''"
          "[''src/a.test.js'', ''src/b.js'', ''README.md'', ''a.spec.js'', ''x/y/z/c.test.tsx'',
            ''.cache/d.test.js'', ''src/.test.js'', ''src/e.test.jsx'', ''src/f.spec.ts'']"]
      1 2 3
    by simp
qed

section \<open>getTestCasesLineNumbersByFile: the test blocks\<close>

lemma node_name_Some: "node_name n = Some x \<longleftrightarrow> n = Identifier x"
  by (cases n) auto

lemma visit_fold:
  "foldl (\<lambda>ranges n. visitCallExpression n ranges) acc ns
     = acc @ map rangeOf (filter (\<lambda>n. isTestCallee (callee n)) ns)"
  by (induction ns arbitrary: acc) (auto simp: visitCallExpression_def rangeOf_def)

text \<open>
  C6, as it is stated, decides by the name of the property that the callee accesses. The
  visitor decides by the \<open>name\<close> of the property node and does not read \<open>computed\<close>.
  The two differ on member accesses written with brackets, in both directions:
  \<open>test[skip](...)\<close> accesses the property that the variable \<open>skip\<close> holds, and is
  recorded; \<open>test["skip"](...)\<close> accesses the property \<open>skip\<close>, and is not recorded.
\<close>

theorem test_blocks_computed_counterexample:
  "isTestCallee (MemberExpression (Identifier ''test'') (Identifier ''skip'') True)
   \<and> \<not> stated_isTestCallee (MemberExpression (Identifier ''test'') (Identifier ''skip'') True)
   \<and> visitCallExpression
        \<lparr>callee = MemberExpression (Identifier ''test'') (Identifier ''skip'') True,
         loc_start_line = 1, loc_end_line = 3\<rparr> []
      = [\<lparr>start = 1, end' = 3\<rparr>]
   \<and> stated_isTestCallee (MemberExpression (Identifier ''test'') (StringLiteral ''skip'') True)
   \<and> \<not> isTestCallee (MemberExpression (Identifier ''test'') (StringLiteral ''skip'') True)
   \<and> visitCallExpression
        \<lparr>callee = MemberExpression (Identifier ''test'') (StringLiteral ''skip'') True,
         loc_start_line = 1, loc_end_line = 3\<rparr> []
      = []"
  by (simp add: visitCallExpression_def)

text \<open>
  C6, amended. The visitor records a call expression if and only if its callee is an
  identifier named \<open>test\<close> or \<open>it\<close>, or its callee is a member expression whose object
  is an identifier named \<open>test\<close> or \<open>it\<close> and whose property node is an identifier named
  \<open>skip\<close> or \<open>only\<close>, whether the access is written with a dot or with brackets. For
  every callee that is not written with brackets this is the stated condition. For a file
  that exists, is read and is parsed, the function returns, for the call expressions recorded
  and in the order of the traversal, the start line and the end line of the source location
  of the call expression, which is the whole call with its arguments.
\<close>

theorem test_blocks_recorded:
  "(isTestCallee c \<longleftrightarrow>
      (\<exists>name. c = Identifier name \<and> (name = ''test'' \<or> name = ''it''))
      \<or> (\<exists>obj prop computed. c = MemberExpression (Identifier obj) (Identifier prop) computed
            \<and> (obj = ''test'' \<or> obj = ''it'') \<and> (prop = ''skip'' \<or> prop = ''only'')))
   \<and> (\<not> isComputed c \<longrightarrow> (isTestCallee c \<longleftrightarrow> stated_isTestCallee c))
   \<and> (existsSync pf filePath \<and> readFileSync pf filePath = Inr code \<and> parse pf code = Inr ast
        \<longrightarrow> getTestCasesLineNumbersByFile pf filePath
              = Inr (map rangeOf
                      (filter (\<lambda>n. isTestCallee (callee n)) (callExpressions pf ast))))
   \<and> start (rangeOf n) = loc_start_line n \<and> end' (rangeOf n) = loc_end_line n"
proof -
  have A: "isTestCallee c \<longleftrightarrow>
      (\<exists>name. c = Identifier name \<and> (name = ''test'' \<or> name = ''it''))
      \<or> (\<exists>obj prop computed. c = MemberExpression (Identifier obj) (Identifier prop) computed
            \<and> (obj = ''test'' \<or> obj = ''it'') \<and> (prop = ''skip'' \<or> prop = ''only''))"
    by (cases c) (auto simp: node_name_Some)
  have S: "isTestCallee c \<longleftrightarrow> stated_isTestCallee c" if "\<not> isComputed c"
  proof (cases c)
    case (MemberExpression object property computed)
    then have dot: "\<not> computed"
      using that by simp
    show ?thesis
    proof (cases property)
      case (Identifier name)
      then show ?thesis
        using MemberExpression dot by (auto simp: node_name_Some)
    qed (use MemberExpression dot in auto)
  qed auto
  have B: "getTestCasesLineNumbersByFile pf filePath
          = Inr (map rangeOf (filter (\<lambda>n. isTestCallee (callee n)) (callExpressions pf ast)))"
    if "existsSync pf filePath \<and> readFileSync pf filePath = Inr code \<and> parse pf code = Inr ast"
    using that by (simp add: getTestCasesLineNumbersByFile_def visit_fold)
  have C: "start (rangeOf n) = loc_start_line n \<and> end' (rangeOf n) = loc_end_line n"
    by (simp add: rangeOf_def)
  from A S B C show ?thesis
    by blast
qed

text \<open>
  The theorem on the example file: \<open>test(...)\<close>, \<open>it.only(...)\<close>, \<open>it.skip(...)\<close> and
  \<open>test[skip](...)\<close> are recorded with their lines; \<open>describe(...)\<close>, \<open>expect(...)\<close>,
  \<open>test.each(...)\<close>, \<open>a.test.skip(...)\<close>, the call of a function expression and
  \<open>test["only"](...)\<close> are not.
\<close>

theorem test_blocks_recorded_witness:
  "existsSync examplePlatform ''/repo/src/a.test.js''
   \<and> readFileSync examplePlatform ''/repo/src/a.test.js'' = Inr ''describe(...)''
   \<and> parse examplePlatform ''describe(...)'' = Inr ''describe(...)''
   \<and> \<not> isComputed (MemberExpression (Identifier ''it'') (Identifier ''only'') False)
   \<and> isTestCallee (MemberExpression (Identifier ''it'') (Identifier ''only'') False)
   \<and> stated_isTestCallee (MemberExpression (Identifier ''it'') (Identifier ''only'') False)
   \<and> \<not> isTestCallee (MemberExpression (Identifier ''test'') (Identifier ''each'') False)
   \<and> \<not> isTestCallee
         (MemberExpression (MemberExpression (Identifier ''a'') (Identifier ''test'') False)
            (Identifier ''skip'') False)
   \<and> getTestCasesLineNumbersByFile examplePlatform ''/repo/src/a.test.js''
       = Inr [\<lparr>start = 2, end' = 6\<rparr>, \<lparr>start = 8, end' = 12\<rparr>, \<lparr>start = 20, end' = 28\<rparr>,
              \<lparr>start = 32, end' = 34\<rparr>]"
  using test_blocks_recorded
    [of "MemberExpression (Identifier ''it'') (Identifier ''only'') False" examplePlatform
        "''/repo/src/a.test.js''" "''describe(...)''" "''describe(...)''"]
  by (simp add: examplePlatform_def exampleCalls_def rangeOf_def)

text \<open>
  C9. When the file path does not exist, \<open>getTestCasesLineNumbersByFile\<close> returns the
  empty sequence: it reads nothing, parses nothing and throws nothing.
\<close>

theorem missing_file_gives_no_ranges:
  "\<not> existsSync pf filePath \<Longrightarrow> getTestCasesLineNumbersByFile pf filePath = Inr []"
  by (simp add: getTestCasesLineNumbersByFile_def)

text \<open>
  The theorem on a path that the example repository does not have; reading it would throw.
\<close>

theorem missing_file_gives_no_ranges_witness:
  "\<not> existsSync examplePlatform ''/repo/src/gone.test.js''
   \<and> readFileSync examplePlatform ''/repo/src/gone.test.js'' = Inl (Exception ''ENOENT'')
   \<and> getTestCasesLineNumbersByFile examplePlatform ''/repo/src/gone.test.js'' = Inr []"
  using missing_file_gives_no_ranges [of examplePlatform "''/repo/src/gone.test.js''"]
  by (simp add: examplePlatform_def)

section \<open>getTotalLinesByAuthor: the sum of the added counts\<close>

text \<open>A loop that adds doubles adds exactly as long as the sum is at most \<open>2^53\<close>.\<close>

lemma foldl_js_add:
  assumes "a + sum_list (map f xs) \<le> 2 ^ 53"
    and "\<forall>x\<in>set xs. f x \<le> 2 ^ 53 \<longrightarrow> g x = Num (f x)"
  shows "foldl (\<lambda>s x. js_add s (g x)) (Num a) xs = Num (a + sum_list (map f xs))"
  using assms
proof (induction xs arbitrary: a)
  case Nil
  show ?case
    by simp
next
  case (Cons x xs)
  have "f x \<le> 2 ^ 53"
    using Cons.prems(1) by simp
  then have g: "g x = Num (f x)"
    using Cons.prems(2) by simp
  have "a + f x \<le> 2 ^ 53"
    using Cons.prems(1) by simp
  then have step: "js_add (Num a) (g x) = Num (a + f x)"
    unfolding g by (rule js_add_exact)
  have "foldl (\<lambda>s x. js_add s (g x)) (Num (a + f x)) xs
          = Num (a + f x + sum_list (map f xs))"
    using Cons.prems by (intro Cons.IH) (auto simp: add.assoc)
  then show ?case
    using step by (simp add: add.assoc)
qed

lemma tab_not_digit:
  assumes "digits s"
  shows "tab \<notin> set s"
proof
  assume "tab \<in> set s"
  then have "isDigit tab"
    using assms by (simp add: digits_def list_all_iff)
  then show False
    by (simp add: isDigit_def tab_def)
qed

text \<open>The added count of a numstat line that starts with the number \<open>n\<close> and a tab.\<close>

lemma addedCount_decimal: "addedCount (decimal n @ tab # rest) = n"
proof -
  have "split_on tab (decimal n @ tab # rest) = decimal n # split_on tab rest"
    using tab_not_digit [OF decimal_digits] by (rule split_on_append)
  moreover have "allDigits (decimal n)"
    using decimal_digits [of n] by (simp add: allDigits_def digits_def)
  ultimately show ?thesis
    by (simp add: addedCount_def decimalValue_decimal)
qed

lemma sum_addedCount:
  "sum_list (map decimalValue (filter allDigits (map (\<lambda>line. hd (split_on tab line)) ls)))
     = (\<Sum>line\<leftarrow>ls. addedCount line)"
  by (induction ls) (auto simp: addedCount_def)

lemma addedLines_sum:
  assumes "(\<Sum>line\<leftarrow>split_on newline stdout. addedCount line) \<le> 2 ^ 53"
  shows "addedLines stdout = Num (\<Sum>line\<leftarrow>split_on newline stdout. addedCount line)"
proof -
  let ?vals = "filter allDigits (map (\<lambda>line. hd (split_on tab line)) (split_on newline stdout))"
  have "0 + sum_list (map decimalValue ?vals) \<le> 2 ^ 53"
    using assms by (simp add: sum_addedCount)
  moreover have "\<forall>val\<in>set ?vals. decimalValue val \<le> 2 ^ 53 \<longrightarrow> parseInt val = Num (decimalValue val)"
    by (auto simp: allDigits_def digits_def intro!: parseInt_exact)
  ultimately have "foldl (\<lambda>sum val. js_add sum (parseInt val)) (Num 0) ?vals
      = Num (0 + sum_list (map decimalValue ?vals))"
    by (rule foldl_js_add)
  then show ?thesis
    by (simp add: addedLines_def sum_addedCount)
qed

text \<open>
  C7. \<open>getTotalLinesByAuthor\<close> returns the sum, over the commits and over the lines that
  \<open>git show --numstat\<close> prints for each, of the added count of the line: the number in
  the first column when that column is one digit or more and nothing else (so \<open>n\<close> for a
  line that starts with \<open>n\<close> in decimal notation and a tab), and 0 otherwise. A line whose
  first column is not such a number, like the line \<open>-\<close>, \<open>-\<close>, \<open>binaryfile\<close> of a
  binary file, adds 0; the function has no result other than a number. This holds for
  counts of lines in the range in which JavaScript adds exactly: the sum is at most
  \<open>2^53\<close>.
\<close>

theorem total_is_sum_of_added_counts:
  assumes "(\<Sum>commit\<leftarrow>commits. \<Sum>line\<leftarrow>numstatLines sh repoPath commit. addedCount line)
             \<le> 2 ^ 53"
  shows "getTotalLinesByAuthor sh commits repoPath
           = Num (\<Sum>commit\<leftarrow>commits. \<Sum>line\<leftarrow>numstatLines sh repoPath commit. addedCount line)
         \<and> addedCount (decimal n @ tab # rest) = n
         \<and> (\<not> allDigits (hd (split_on tab line)) \<longrightarrow> addedCount line = 0)
         \<and> (allDigits (hd (split_on tab line)) \<longrightarrow>
              addedCount line = decimalValue (hd (split_on tab line)))
         \<and> addedCount (''-'' @ [tab] @ ''-'' @ [tab] @ ''binaryfile'') = 0"
proof -
  let ?count = "\<lambda>commit. \<Sum>line\<leftarrow>numstatLines sh repoPath commit. addedCount line"
  have "0 + sum_list (map ?count commits) \<le> 2 ^ 53"
    using assms by simp
  moreover have "\<forall>commit\<in>set commits. ?count commit \<le> 2 ^ 53 \<longrightarrow>
      addedLines (runCommand sh (numstatCommand commit) repoPath) = Num (?count commit)"
    by (simp add: addedLines_sum numstatLines_def)
  ultimately have
    "foldl (\<lambda>totalLines commit.
        js_add totalLines (addedLines (runCommand sh (numstatCommand commit) repoPath)))
       (Num 0) commits
     = Num (0 + sum_list (map ?count commits))"
    by (rule foldl_js_add)
  then have A: "getTotalLinesByAuthor sh commits repoPath = Num (sum_list (map ?count commits))"
    by (simp add: getTotalLinesByAuthor_def)
  have B: "addedCount (''-'' @ [tab] @ ''-'' @ [tab] @ ''binaryfile'') = 0"
    by (simp add: addedCount_def tab_def allDigits_def isDigit_def)
  show ?thesis
    using A B addedCount_decimal by (simp add: addedCount_def)
qed

text \<open>
  The theorem on the example repository: commit \<open>a1\<close> adds 12 lines to one file and 7 to
  another and changes a binary file; \<open>git show\<close> fails for the commit \<open>zz\<close>. The total is
  19.
\<close>

theorem total_is_sum_of_added_counts_witness:
  "(\<Sum>commit\<leftarrow>[''a1'', ''zz'']. \<Sum>line\<leftarrow>numstatLines exampleGit ''/repo'' commit. addedCount line)
     \<le> 2 ^ 53
   \<and> \<not> allDigits (hd (split_on tab (''-'' @ [tab] @ ''-'' @ [tab] @ ''logo.png'')))
   \<and> addedCount (''-'' @ [tab] @ ''-'' @ [tab] @ ''logo.png'') = 0
   \<and> allDigits (hd (split_on tab (''12'' @ [tab] @ ''3'' @ [tab] @ ''src/a.test.js'')))
   \<and> addedCount (''12'' @ [tab] @ ''3'' @ [tab] @ ''src/a.test.js'') = 12
   \<and> map addedCount (numstatLines exampleGit ''/repo'' ''a1'') = [0, 0, 0, 0, 0, 12, 0, 7]
   \<and> map addedCount (numstatLines exampleGit ''/repo'' ''zz'') = [0]
   \<and> getTotalLinesByAuthor exampleGit [''a1'', ''zz''] ''/repo'' = Num 19"
proof -
  have 1: "\<not> allDigits (hd (split_on tab (''-'' @ [tab] @ ''-'' @ [tab] @ ''logo.png'')))"
    by code_simp
  have 2: "allDigits (hd (split_on tab (''12'' @ [tab] @ ''3'' @ [tab] @ ''src/a.test.js'')))"
    by code_simp
  have 3: "decimalValue (hd (split_on tab (''12'' @ [tab] @ ''3'' @ [tab] @ ''src/a.test.js''))) = 12"
    by code_simp
  have 4: "map addedCount (numstatLines exampleGit ''/repo'' ''a1'') = [0, 0, 0, 0, 0, 12, 0, 7]"
    by code_simp
  have 5: "map addedCount (numstatLines exampleGit ''/repo'' ''zz'') = [0]"
    by code_simp
  have 6: "decimal 12 = ''12''"
    by code_simp
  have small: "(\<Sum>commit\<leftarrow>[''a1'', ''zz''].
      \<Sum>line\<leftarrow>numstatLines exampleGit ''/repo'' commit. addedCount line) \<le> 2 ^ 53"
    using 4 5 by simp
  show ?thesis
    using total_is_sum_of_added_counts
        [OF small, where line = "''-'' @ [tab] @ ''-'' @ [tab] @ ''logo.png''"
           and n = 12 and rest = "''3'' @ [tab] @ ''src/a.test.js''"]
      total_is_sum_of_added_counts
        [OF small, where line = "''12'' @ [tab] @ ''3'' @ [tab] @ ''src/a.test.js''"
           and n = 12 and rest = "''3'' @ [tab] @ ''src/a.test.js''"]
      1 2 3 4 5 6 small
    by simp
qed

text \<open>
  Beyond that range the additions round: for the two lines \<open>9007199254740992\<close>, \<open>0\<close>,
  \<open>a\<close> and \<open>1\<close>, \<open>0\<close>, \<open>b\<close> the counts add up to \<open>2^53 + 1\<close>, and the
  script's sum is \<open>2^53\<close>.
\<close>

lemma addedLines_beyond_exact_range:
  "addedLines (unlines [''9007199254740992'' @ [tab] @ ''0'' @ [tab] @ ''a'',
                        ''1'' @ [tab] @ ''0'' @ [tab] @ ''b''])
     = Num 9007199254740992
   \<and> (\<Sum>line\<leftarrow>[''9007199254740992'' @ [tab] @ ''0'' @ [tab] @ ''a'',
                 ''1'' @ [tab] @ ''0'' @ [tab] @ ''b'']. addedCount line)
     = 9007199254740993"
  by (simp add: addedLines_def addedCount_def allDigits_def unlines_def newline_def tab_def
      isDigit_def parseInt_def decimalValue_def digitValue_def roundToDouble_def
      bitLength.simps Let_def)

section \<open>getListOfFiles: the files of the commits\<close>

lemma trim_not_blank:
  assumes "trim s \<noteq> []"
  shows "\<not> blank (trim s)"
proof -
  let ?u = "dropWhile isWhiteSpace (rev (dropWhile isWhiteSpace s))"
  have ne: "?u \<noteq> []"
    using assms by (simp add: trim_def)
  then have "\<not> isWhiteSpace (hd ?u)"
    by (rule hd_dropWhile)
  moreover have "hd ?u \<in> set (trim s)"
    using ne by (simp add: trim_def)
  ultimately show ?thesis
    by (auto simp: blank_def list_all_iff)
qed

lemma set_addFiles:
  "set (foldl (\<lambda>fs file. addFile file fs) files ls)
     = set files \<union> set (filter (\<lambda>f. f \<noteq> []) (map trim ls))"
  by (induction ls arbitrary: files) (auto simp: addFile_def Let_def set_set_add)

lemma distinct_addFiles:
  "distinct files \<Longrightarrow> distinct (foldl (\<lambda>fs file. addFile file fs) files ls)"
  by (induction ls arbitrary: files) (auto simp: addFile_def Let_def distinct_set_add)

lemma set_addCommitFiles:
  "set (addCommitFiles sh repoPath files commit)
     = set files \<union> set (fileNames sh repoPath commit)"
  by (auto simp: addCommitFiles_def Let_def set_addFiles fileNames_def trim_Nil)

lemma distinct_addCommitFiles:
  "distinct files \<Longrightarrow> distinct (addCommitFiles sh repoPath files commit)"
  by (simp add: addCommitFiles_def Let_def distinct_addFiles)

lemma set_fold_addCommitFiles:
  "set (foldl (addCommitFiles sh repoPath) files commits)
     = set files \<union> (\<Union>commit\<in>set commits. set (fileNames sh repoPath commit))"
  by (induction commits arbitrary: files) (auto simp: set_addCommitFiles)

lemma distinct_fold_addCommitFiles:
  "distinct files \<Longrightarrow> distinct (foldl (addCommitFiles sh repoPath) files commits)"
  by (induction commits arbitrary: files) (auto simp: distinct_addCommitFiles)

lemma fileNames_not_blank:
  "f \<in> set (fileNames sh repoPath commit) \<Longrightarrow> f \<noteq> [] \<and> \<not> blank f"
  using trim_not_blank by (auto simp: fileNames_def)

text \<open>
  C8. For every list of commits, \<open>getListOfFiles\<close> returns a sequence without duplicates
  whose elements are exactly the names of the files changed by the commits, taken together:
  for each commit the lines that git prints, trimmed, without the empty ones. No element of
  the sequence is empty or made of white space only.
\<close>

theorem getListOfFiles_union_of_names:
  "distinct (getListOfFiles sh commits repoPath)
   \<and> set (getListOfFiles sh commits repoPath)
       = (\<Union>commit\<in>set commits. set (fileNames sh repoPath commit))
   \<and> (\<forall>f\<in>set (getListOfFiles sh commits repoPath). f \<noteq> [] \<and> \<not> blank f)"
proof -
  have A: "distinct (getListOfFiles sh commits repoPath)"
    by (simp add: getListOfFiles_def distinct_fold_addCommitFiles)
  have B: "set (getListOfFiles sh commits repoPath)
       = (\<Union>commit\<in>set commits. set (fileNames sh repoPath commit))"
    by (simp add: getListOfFiles_def set_fold_addCommitFiles)
  have C: "\<forall>f\<in>set (getListOfFiles sh commits repoPath). f \<noteq> [] \<and> \<not> blank f"
    unfolding B using fileNames_not_blank by blast
  from A B C show ?thesis
    by blast
qed

text \<open>
  The theorem on the example repository: commit \<open>a1\<close> changed two files, commit \<open>b2\<close>
  one of them and \<open>README.md\<close>, printed with spaces around it and followed by a line of
  spaces; \<open>git show\<close> fails for the commit \<open>zz\<close>.
\<close>

theorem getListOfFiles_union_of_names_witness:
  "fileNames exampleGit ''/repo'' ''a1'' = [''src/a.test.js'', ''src/b.js'']
   \<and> fileNames exampleGit ''/repo'' ''b2'' = [''src/b.js'', ''README.md'']
   \<and> fileNames exampleGit ''/repo'' ''zz'' = []
   \<and> getListOfFiles exampleGit [''a1'', ''b2'', ''zz''] ''/repo''
       = [''src/a.test.js'', ''src/b.js'', ''README.md'']
   \<and> distinct (getListOfFiles exampleGit [''a1'', ''b2'', ''zz''] ''/repo'')
   \<and> \<not> blank ''README.md''
   \<and> [] \<notin> set (getListOfFiles exampleGit [''a1'', ''b2'', ''zz''] ''/repo'')"
proof -
  have 1: "fileNames exampleGit ''/repo'' ''a1'' = [''src/a.test.js'', ''src/b.js'']"
    by code_simp
  have 2: "fileNames exampleGit ''/repo'' ''b2'' = [''src/b.js'', ''README.md'']"
    by code_simp
  have 3: "fileNames exampleGit ''/repo'' ''zz'' = []"
    by code_simp
  have 4: "getListOfFiles exampleGit [''a1'', ''b2'', ''zz''] ''/repo''
       = [''src/a.test.js'', ''src/b.js'', ''README.md'']"
    by code_simp
  have 5: "\<not> blank ''README.md''"
    by code_simp
  show ?thesis
    using getListOfFiles_union_of_names [of exampleGit "[''a1'', ''b2'', ''zz'']" "''/repo''"]
      1 2 3 4 5
    by simp
qed

section \<open>The first copy\<close>

text \<open>
  The first copy's \<open>getCommits\<close> has the first method only, and its query gives the dates
  of the window without a time of day.
\<close>

lemma getCommits_first_one_query:
  "getCommits_first sh cfg repoPath
     = (if runCommand sh (logCommand_first cfg) repoPath = [] then []
        else split_on newline (runCommand sh (logCommand_first cfg) repoPath))"
  by (simp add: getCommits_first_def Let_def)

lemma logCommand_first_dates_only:
  "logCommand_first july
     = ''git log --author=\"Jane Doe\" --since=\"2025-07-01\" --until=\"2025-07-31\" --pretty=format:\"%H\"''
   \<and> \<not> fullDayWindow july (logCommand_first july)"
  by (simp add: logCommand_first_def fullDayWindow_def july_def)

text \<open>
  The first copy's \<open>getListOfFiles\<close> adds the lines untrimmed, the empty one too: for a
  commit for which git prints nothing it returns one empty name, where the second copy
  returns none.
\<close>

lemma getListOfFiles_first_blank_name:
  "getListOfFiles_first silent [''a1''] ''/repo'' = [[]]
   \<and> getListOfFiles silent [''a1''] ''/repo'' = []"
  by (simp add: getListOfFiles_first_def getListOfFiles_def addCommitFiles_def add_all_def
      set_add_def runCommand_def silent_def)

end
